theory Spec2Isabelle
  imports Main
begin

section \<open>Python values, errors and the library functions the cache relies on\<close>

text \<open>
  The module \<^verbatim>\<open>cacher.py\<close> keeps pickled results in one flat directory. A file is
  named \<^verbatim>\<open>[<name>_]<sha256 hex>_<YYYYMMDDHHMMSS>.pkl\<close>. The three entry points are
  \<^verbatim>\<open>check\<close>, \<^verbatim>\<open>store\<close> and the decorator \<^verbatim>\<open>cache_this\<close>.

  Python values are a datatype; only the distinction between tuples, \<^verbatim>\<open>None\<close> and
  everything else is used by the code (\<^verbatim>\<open>isinstance(args, tuple)\<close>,
  \<^verbatim>\<open>kwargs is None\<close>). File names and file contents are byte strings; file names are
  taken to be ASCII, so \<^verbatim>\<open>\d\<close> is one of the ten characters \<^verbatim>\<open>0\<close> to \<^verbatim>\<open>9\<close>.

  \<^verbatim>\<open>pickle\<close> tells objects apart by their identity, \<^verbatim>\<open>id(obj)\<close>, so a value shows
  which of its parts are one and the same object: \<open>PId n v\<close> is the object with the
  identity \<open>n\<close> and the value \<open>v\<close>, and two occurrences of the same identity are one
  object. A part that carries no identity is an object of its own, met nowhere else. Values
  are finite trees: no object contains itself.
\<close>

datatype pyval =
    PNone
  | PBool bool
  | PInt int
  | PStr string
  | PTuple "pyval list"
  | PList "pyval list"
  | PDict "(pyval \<times> pyval) list"
  | PObj nat
  | PId nat pyval

text \<open>
  The exceptions that can leave one of the three functions. \<open>PicklingError\<close> stands for
  whatever \<^verbatim>\<open>pickle.dump\<close> raises on a value, \<open>UnpicklingError\<close> for whatever
  \<^verbatim>\<open>pickle.load\<close> raises on the bytes of a file (\<^verbatim>\<open>EOFError\<close> on an empty one), and
  \<open>Raised\<close> is an exception of the decorated function. \<^verbatim>\<open>ValueError\<close> from the
  timestamp parsing is always caught by the code; it is the value \<open>None\<close> of the parsers
  below.
\<close>

datatype error =
    AttributeError
  | FileNotFoundError
  | PicklingError
  | UnpicklingError
  | Raised string

subsection \<open>What \<^verbatim>\<open>pickle\<close> writes for a value\<close>

text \<open>
  The pickler walks the value from left to right and keeps a memo of the objects it has
  written, keyed by their identity. An object that is in the memo is written as a reference
  to its memo entry (\<^verbatim>\<open>BINGET\<close>) and not again. \<^verbatim>\<open>None\<close>, booleans, integers and the
  empty tuple are not put in the memo; a string and any other object are put there when
  they have been written, a tuple after its elements, a list and a dictionary before
  theirs. What is written is a \<open>pickled\<close> term: the value with each repeated object
  replaced by the number of its memo entry. The memo of the model lists the identities of
  its entries, \<open>None\<close> for an object that carries none.
\<close>

datatype pickled =
    CNone
  | CBool bool
  | CInt int
  | CStr string
  | CTuple "pickled list"
  | CList "pickled list"
  | CDict "(pickled \<times> pickled) list"
  | CObj nat
  | CGet nat

type_synonym memo = "nat option list"

text \<open>\<^verbatim>\<open>self.memo.get(id(obj))\<close>: the number of the entry with the identity \<open>n\<close>.\<close>

fun memo_index :: "memo \<Rightarrow> nat \<Rightarrow> nat option" where
  "memo_index [] n = None"
| "memo_index (e # memo) n =
     (if e = Some n then Some 0 else map_option Suc (memo_index memo n))"

text \<open>
  \<^verbatim>\<open>save(obj)\<close>. The first argument is the identity of the object that is being written,
  if it carries one; the elements of a tuple, of a list and of a dictionary (key, then
  value) are written in their order, each from the memo that the one before has left.
\<close>

function pickle_walk :: "nat option \<Rightarrow> memo \<Rightarrow> pyval \<Rightarrow> memo \<times> pickled"
  and pickle_walk_list :: "memo \<Rightarrow> pyval list \<Rightarrow> memo \<times> pickled list"
  and pickle_walk_items ::
    "memo \<Rightarrow> (pyval \<times> pyval) list \<Rightarrow> memo \<times> (pickled \<times> pickled) list" where
  "pickle_walk nm memo PNone = (memo, CNone)"
| "pickle_walk nm memo (PBool b) = (memo, CBool b)"
| "pickle_walk nm memo (PInt i) = (memo, CInt i)"
| "pickle_walk nm memo (PStr s) = (memo @ [nm], CStr s)"
| "pickle_walk nm memo (PTuple xs) =
     (if xs = [] then (memo, CTuple [])
      else (case pickle_walk_list memo xs of (memo', cs) \<Rightarrow> (memo' @ [nm], CTuple cs)))"
| "pickle_walk nm memo (PList xs) =
     (case pickle_walk_list (memo @ [nm]) xs of (memo', cs) \<Rightarrow> (memo', CList cs))"
| "pickle_walk nm memo (PDict kvs) =
     (case pickle_walk_items (memo @ [nm]) kvs of (memo', cs) \<Rightarrow> (memo', CDict cs))"
| "pickle_walk nm memo (PObj k) = (memo @ [nm], CObj k)"
| "pickle_walk nm memo (PId n v) =
     (case memo_index memo n of
        Some k \<Rightarrow> (memo, CGet k)
      | None \<Rightarrow> pickle_walk (Some n) memo v)"
| "pickle_walk_list memo [] = (memo, [])"
| "pickle_walk_list memo (x # xs) =
     (case pickle_walk None memo x of
        (memo', c) \<Rightarrow>
          (case pickle_walk_list memo' xs of (memo'', cs) \<Rightarrow> (memo'', c # cs)))"
| "pickle_walk_items memo [] = (memo, [])"
| "pickle_walk_items memo ((k, v) # kvs) =
     (case pickle_walk None memo k of
        (memo1, ck) \<Rightarrow>
          (case pickle_walk None memo1 v of
             (memo2, cv) \<Rightarrow>
               (case pickle_walk_items memo2 kvs of
                  (memo3, cs) \<Rightarrow> (memo3, (ck, cv) # cs))))"
  by pat_completeness auto
termination
  by (relation "measure (\<lambda>s. case s of
         Inl (nm, memo, v) \<Rightarrow> size v
       | Inr (Inl (memo, xs)) \<Rightarrow> size_list size xs
       | Inr (Inr (memo, kvs)) \<Rightarrow> size_list (size_prod size size) kvs)") auto



text \<open>
  The bytes that \<^verbatim>\<open>pickle\<close> makes of a pickled term, the inverse \<^verbatim>\<open>pickle.load\<close> and
  \<^verbatim>\<open>hashlib.sha256\<close> are library code; they are parameters of the model.
  \<open>pickle_encode c = None\<close> means that pickling raises (the value holds an object that
  cannot be pickled); \<open>pickle_partial v\<close> is what \<^verbatim>\<open>pickle.dump\<close> had written to the file
  when it raised; \<open>pickle_loads b = None\<close> means that unpickling the bytes \<open>b\<close> raises.
\<close>

record codec =
  pickle_encode :: "pickled \<Rightarrow> string option"
  pickle_partial :: "pyval \<Rightarrow> string"
  pickle_loads :: "string \<Rightarrow> pyval option"
  sha256_hexdigest :: "string \<Rightarrow> string"

text \<open>\<^verbatim>\<open>pickle.dumps(v)\<close>: the walk starts with an empty memo.\<close>

definition pickle_dumps :: "codec \<Rightarrow> pyval \<Rightarrow> string option" where
  "pickle_dumps env v = pickle_encode env (snd (pickle_walk None [] v))"

fun is_tuple :: "pyval \<Rightarrow> bool" where
  "is_tuple (PTuple xs) = True"
| "is_tuple (PId n v) = is_tuple v"
| "is_tuple v = False"

fun is_none :: "pyval \<Rightarrow> bool" where
  "is_none PNone = True"
| "is_none (PId n v) = is_none v"
| "is_none v = False"

text \<open>
  \<^verbatim>\<open>if not isinstance(args, tuple): args = (args,)\<close>. The tuple is a new object: it
  carries no identity.
\<close>

definition ensure_tuple :: "pyval \<Rightarrow> pyval" where
  "ensure_tuple args = (if \<not> is_tuple args then PTuple [args] else args)"

text \<open>\<^verbatim>\<open>if kwargs is None: kwargs = {}\<close>. The dictionary is a new object.\<close>

definition ensure_dict :: "pyval \<Rightarrow> pyval" where
  "ensure_dict kwargs = (if is_none kwargs then PDict [] else kwargs)"

text \<open>
  \<^verbatim>\<open>hashlib.sha256(pickle.dumps((args, kwargs))).hexdigest()\<close>; \<open>None\<close> when
  \<^verbatim>\<open>pickle.dumps\<close> raises. The pair is a new tuple; an object that occurs in
  \<^verbatim>\<open>args\<close> and again in \<^verbatim>\<open>kwargs\<close> is written once and referred to afterwards.
\<close>

definition derive_key :: "codec \<Rightarrow> pyval \<Rightarrow> pyval \<Rightarrow> string option" where
  "derive_key env args kwargs =
     (case pickle_dumps env (PTuple [args, kwargs]) of
        None \<Rightarrow> None
      | Some b \<Rightarrow> Some (sha256_hexdigest env b))"

text \<open>A name is used only when it is truthy: neither \<^verbatim>\<open>None\<close> nor the empty string.\<close>

definition name_given :: "string option \<Rightarrow> bool" where
  "name_given name = (case name of None \<Rightarrow> False | Some n \<Rightarrow> n \<noteq> [])"

text \<open>\<^verbatim>\<open>file_prefix = f"{name}_{key}" if name else key\<close>\<close>

definition file_prefix_of :: "string option \<Rightarrow> string \<Rightarrow> string" where
  "file_prefix_of name key = (if name_given name then the name @ ''_'' @ key else key)"

definition startswith :: "string \<Rightarrow> string \<Rightarrow> bool" where
  "startswith s p = (take (length p) s = p)"

section \<open>Dates and times\<close>

text \<open>
  A naive \<^verbatim>\<open>datetime\<close>. A \<^verbatim>\<open>timedelta\<close> is its number of microseconds, an integer:
  the normalised representation of a \<^verbatim>\<open>timedelta\<close> is unique, so comparing two of them
  is comparing these integers.
\<close>

record datetime =
  year :: nat
  month :: nat
  day :: nat
  hour :: nat
  minute :: nat
  second :: nat
  microsecond :: nat

type_synonym timedelta = int

definition is_leap :: "nat \<Rightarrow> bool" where
  "is_leap y = (y mod 4 = 0 \<and> (y mod 100 \<noteq> 0 \<or> y mod 400 = 0))"

definition days_in_month :: "nat \<Rightarrow> nat \<Rightarrow> nat" where
  "days_in_month y m =
     (if m = 2 then (if is_leap y then 29 else 28)
      else if m = 4 \<or> m = 6 \<or> m = 9 \<or> m = 11 then 30 else 31)"

definition valid_datetime :: "datetime \<Rightarrow> bool" where
  "valid_datetime t =
     (1 \<le> year t \<and> year t \<le> 9999 \<and> 1 \<le> month t \<and> month t \<le> 12 \<and>
      1 \<le> day t \<and> day t \<le> days_in_month (year t) (month t) \<and>
      hour t < 24 \<and> minute t < 60 \<and> second t < 60 \<and> microsecond t < 1000000)"

definition days_before_year :: "nat \<Rightarrow> int" where
  "days_before_year y =
     (let p = int y - 1 in p * 365 + p div 4 - p div 100 + p div 400)"

definition days_before_month :: "nat \<Rightarrow> nat \<Rightarrow> int" where
  "days_before_month y m = int (sum_list (map (days_in_month y) [1..<m]))"

definition toordinal :: "datetime \<Rightarrow> int" where
  "toordinal t = days_before_year (year t) + days_before_month (year t) (month t) + int (day t)"

text \<open>Microseconds since the start of day 0 of the proleptic Gregorian calendar.\<close>

definition to_micro :: "datetime \<Rightarrow> int" where
  "to_micro t =
     (((toordinal t * 24 + int (hour t)) * 60 + int (minute t)) * 60 + int (second t)) * 1000000
       + int (microsecond t)"

text \<open>\<^verbatim>\<open>a - b\<close> on two naive datetimes.\<close>

definition dt_diff :: "datetime \<Rightarrow> datetime \<Rightarrow> timedelta" where
  "dt_diff a b = to_micro a - to_micro b"

subsection \<open>Printing: \<^verbatim>\<open>strftime("%Y%m%d%H%M%S")\<close>\<close>

definition digits :: "char list" where
  "digits = ''0123456789''"

text \<open>The character of a decimal digit \<open>d < 10\<close>.\<close>

definition digit_char :: "nat \<Rightarrow> char" where
  "digit_char d = digits ! d"

definition pad2 :: "nat \<Rightarrow> string" where
  "pad2 n = [digit_char (n div 10 mod 10), digit_char (n mod 10)]"

text \<open>
  \<^verbatim>\<open>%Y\<close> prints the year, at most 9999, in decimal; the C library does not pad a year
  below 1000 with zeros, so the stamp has fourteen digits from the year 1000 on.
\<close>

definition year_str :: "nat \<Rightarrow> string" where
  "year_str y =
     (if y < 10 then [digit_char y]
      else if y < 100 then pad2 y
      else if y < 1000 then digit_char (y div 100) # pad2 y
      else digit_char (y div 1000 mod 10) # digit_char (y div 100 mod 10) # pad2 y)"

definition strftime_stamp :: "datetime \<Rightarrow> string" where
  "strftime_stamp t =
     year_str (year t) @ pad2 (month t) @ pad2 (day t) @ pad2 (hour t) @ pad2 (minute t)
       @ pad2 (second t)"

subsection \<open>Parsing: \<^verbatim>\<open>datetime.strptime\<close>\<close>

text \<open>
  \<^verbatim>\<open>strptime\<close> turns the format into a regular expression, one group for each directive:
  \<^verbatim>\<open>
  %Y  (\d\d\d\d)
  %m  (1[0-2]|0[1-9]|[1-9])
  %d  (3[0-1]|[1-2]\d|0[1-9]|[1-9]| [1-9])
  %H  (2[0-3]|[0-1]\d|\d)
  %M  ([0-5]\d|\d)
  %S  (6[0-1]|[0-5]\d|\d)
  \<close>
  and matches it, case-insensitively, at the start of the string. A character class is the
  list of its characters, an alternative is a sequence of classes, a group is the ordered
  list of its alternatives. The matcher backtracks: \<open>match_seq\<close> lists every way to match, in
  the order in which the regular expression engine tries them, and the engine returns the
  first.
\<close>

type_synonym charclass = "char list"
type_synonym alternative = "charclass list"
type_synonym regroup = "alternative list"

fun match_alt :: "alternative \<Rightarrow> string \<Rightarrow> (string \<times> string) option" where
  "match_alt [] s = Some ([], s)"
| "match_alt (cl # cls) [] = None"
| "match_alt (cl # cls) (c # s) =
     (if c \<in> set cl
      then (case match_alt cls s of None \<Rightarrow> None | Some (m, r) \<Rightarrow> Some (c # m, r))
      else None)"

definition match_group :: "regroup \<Rightarrow> string \<Rightarrow> (string \<times> string) list" where
  "match_group alts s = List.map_filter (\<lambda>a. match_alt a s) alts"

fun match_seq :: "regroup list \<Rightarrow> string \<Rightarrow> (string list \<times> string) list" where
  "match_seq [] s = [([], s)]"
| "match_seq (g # gs) s =
     concat (map (\<lambda>(m, r). map (\<lambda>(ms, r'). (m # ms, r')) (match_seq gs r)) (match_group g s))"

definition re_match :: "regroup list \<Rightarrow> string \<Rightarrow> (string list \<times> string) option" where
  "re_match gs s = (case match_seq gs s of [] \<Rightarrow> None | x # xs \<Rightarrow> Some x)"

definition re_Y :: regroup where
  "re_Y = [[digits, digits, digits, digits]]"

definition re_m :: regroup where
  "re_m = [[''1'', ''012''], [''0'', ''123456789''], [''123456789'']]"

definition re_d :: regroup where
  "re_d = [[''3'', ''01''], [''12'', digits], [''0'', ''123456789''], [''123456789''],
           ['' '', ''123456789'']]"

definition re_H :: regroup where
  "re_H = [[''2'', ''0123''], [''01'', digits], [digits]]"

definition re_M :: regroup where
  "re_M = [[''012345'', digits], [digits]]"

definition re_S :: regroup where
  "re_S = [[''6'', ''01''], [''012345'', digits], [digits]]"

text \<open>The format \<^verbatim>\<open>"%Y%m%d%H%M%S"\<close> of \<^verbatim>\<open>check\<close>.\<close>

definition fmt_stamp :: "regroup list" where
  "fmt_stamp = [re_Y, re_m, re_d, re_H, re_M, re_S]"

text \<open>The format \<^verbatim>\<open>"%Y%m%d%H%M%S.pkl"\<close> of \<^verbatim>\<open>cache_this\<close>; letters match in either case.\<close>

definition fmt_stamp_pkl :: "regroup list" where
  "fmt_stamp_pkl = fmt_stamp @ [[[''.'']], [[''pP'']], [[''kK'']], [[''lL'']]]"

text \<open>The value of a digit character: its position among the ten digits.\<close>

definition digit_val :: "char \<Rightarrow> nat" where
  "digit_val c = length (takeWhile (\<lambda>x. x \<noteq> c) digits)"

text \<open>\<^verbatim>\<open>int(s)\<close> on a group: digits, after a blank in the case of \<^verbatim>\<open>%d\<close>.\<close>

definition py_int :: "string \<Rightarrow> nat" where
  "py_int s = foldl (\<lambda>a c. 10 * a + digit_val c) 0 (dropWhile (\<lambda>c. c = CHR '' '') s)"

text \<open>
  The constructor \<^verbatim>\<open>datetime(year, month, day, hour, minute, second)\<close>: it raises
  \<^verbatim>\<open>ValueError\<close> for a field out of range.
\<close>

definition make_datetime :: "nat \<Rightarrow> nat \<Rightarrow> nat \<Rightarrow> nat \<Rightarrow> nat \<Rightarrow> nat \<Rightarrow> datetime option" where
  "make_datetime y m d H M S =
     (let t = \<lparr>year = y, month = m, day = d, hour = H, minute = M, second = S, microsecond = 0\<rparr>
      in if valid_datetime t then Some t else None)"

text \<open>
  \<open>None\<close> is \<^verbatim>\<open>ValueError\<close>: the string does not match the format, or unconverted data
  remains after the match, or a field is out of range.
\<close>

definition strptime :: "regroup list \<Rightarrow> string \<Rightarrow> datetime option" where
  "strptime fmt s =
     (case re_match fmt s of
        None \<Rightarrow> None
      | Some (groups, rest) \<Rightarrow>
          if rest \<noteq> [] then None
          else (case groups of
                  Y # m # d # H # M # S # lits \<Rightarrow>
                    make_datetime (py_int Y) (py_int m) (py_int d) (py_int H) (py_int M) (py_int S)
                | _ \<Rightarrow> None))"

section \<open>The cache directory\<close>

text \<open>
  The directory maps a file name to the bytes of the file. \<^verbatim>\<open>os.listdir\<close> returns the
  names in an order of the file system's choosing, so each scan takes the listing it was
  given as an argument; \<open>is_listing\<close> says that a list is a listing of a directory.
\<close>

type_synonym directory = "string \<rightharpoonup> string"

definition is_listing :: "string list \<Rightarrow> directory \<Rightarrow> bool" where
  "is_listing listing dir = (distinct listing \<and> set listing = dom dir)"

subsection \<open>\<^verbatim>\<open>re.search(r"(\d{14})\.pkl$", filename)\<close>\<close>

text \<open>
  \<^verbatim>\<open>$\<close> matches at the end of the string and also just before a newline that ends the
  string. The result is group 1, the fourteen digits; \<open>None\<close> is Python's \<^verbatim>\<open>None\<close>, no
  match.
\<close>

definition is_digit :: "char \<Rightarrow> bool" where
  "is_digit c = (c \<in> set digits)"

definition chomp :: "string \<Rightarrow> string" where
  "chomp s = (if s \<noteq> [] \<and> last s = CHR 0x0A then butlast s else s)"

definition re_search_stamp :: "string \<Rightarrow> string option" where
  "re_search_stamp filename =
     (let s = chomp filename; n = length s in
      if 18 \<le> n \<and> drop (n - 4) s = ''.pkl'' \<and> list_all is_digit (take 14 (drop (n - 18) s))
      then Some (take 14 (drop (n - 18) s))
      else None)"

section \<open>\<^verbatim>\<open>check\<close>\<close>

text \<open>
  The loop of \<^verbatim>\<open>check\<close> over the listing. It returns the directory as the loop leaves it
  and either the exception that left the function or the pair that \<^verbatim>\<open>check\<close> returns.
  \<^verbatim>\<open>match.group(1)\<close> on a failed match raises \<^verbatim>\<open>AttributeError\<close>, which the
  \<^verbatim>\<open>except (ValueError, TypeError)\<close> clause does not catch. \<^verbatim>\<open>os.remove\<close> and
  \<^verbatim>\<open>open\<close> raise \<^verbatim>\<open>FileNotFoundError\<close> for a name that is not in the directory.
\<close>

fun check_scan ::
  "codec \<Rightarrow> string option \<Rightarrow> string \<Rightarrow> datetime \<Rightarrow> timedelta \<Rightarrow> string list \<Rightarrow> directory
     \<Rightarrow> directory \<times> (error + bool \<times> pyval)" where
  "check_scan env name prefix now time_limit [] dir = (dir, Inr (False, PNone))"
| "check_scan env name prefix now time_limit (filename # rest) dir =
     (if name_given name \<and> \<not> startswith filename (the name)
      then check_scan env name prefix now time_limit rest dir
      else if startswith filename prefix
      then (case re_search_stamp filename of
              None \<Rightarrow> (dir, Inl AttributeError)
            | Some timestamp_str \<Rightarrow>
                (case strptime fmt_stamp timestamp_str of
                   None \<Rightarrow>
                     (case dir filename of
                        None \<Rightarrow> (dir, Inl FileNotFoundError)
                      | Some b \<Rightarrow>
                          check_scan env name prefix now time_limit rest (dir(filename := None)))
                 | Some timestamp \<Rightarrow>
                     if dt_diff now timestamp \<le> time_limit
                     then (case dir filename of
                             None \<Rightarrow> (dir, Inl FileNotFoundError)
                           | Some b \<Rightarrow>
                               (case pickle_loads env b of
                                  None \<Rightarrow> (dir, Inl UnpicklingError)
                                | Some v \<Rightarrow> (dir, Inr (True, v))))
                     else (case dir filename of
                             None \<Rightarrow> (dir, Inl FileNotFoundError)
                           | Some b \<Rightarrow>
                               check_scan env name prefix now time_limit rest
                                 (dir(filename := None)))))
      else check_scan env name prefix now time_limit rest dir)"

text \<open>
  \<^verbatim>\<open>check(args, kwargs, name, time_limit)\<close>, with the clock reading \<open>now\<close>, the
  listing and the directory it runs on.
\<close>

definition check ::
  "codec \<Rightarrow> pyval \<Rightarrow> pyval \<Rightarrow> string option \<Rightarrow> timedelta \<Rightarrow> datetime \<Rightarrow> string list
     \<Rightarrow> directory \<Rightarrow> directory \<times> (error + bool \<times> pyval)" where
  "check env args kwargs name time_limit now listing dir =
     (case derive_key env (ensure_tuple args) (ensure_dict kwargs) of
        None \<Rightarrow> (dir, Inr (False, PNone))
      | Some key \<Rightarrow>
          check_scan env name (file_prefix_of name key) now time_limit listing dir)"

section \<open>\<^verbatim>\<open>store\<close>\<close>

text \<open>
  \<^verbatim>\<open>open(path, 'wb')\<close> creates the file or truncates the one that is there;
  \<^verbatim>\<open>pickle.dump(result, f)\<close> then writes the value, and when it raises the file keeps
  what had been written. A \<^verbatim>\<open>store\<close> whose key cannot be derived prints a message and
  returns, leaving the directory as it is. The second component is the exception that left
  the function, if any.
\<close>

definition entry_name :: "string \<Rightarrow> datetime \<Rightarrow> string" where
  "entry_name prefix now = prefix @ ''_'' @ strftime_stamp now @ ''.pkl''"

definition write_pickle :: "codec \<Rightarrow> string \<Rightarrow> pyval \<Rightarrow> directory \<Rightarrow> directory \<times> error option" where
  "write_pickle env path result dir =
     (case pickle_dumps env result of
        None \<Rightarrow> (dir(path \<mapsto> pickle_partial env result), Some PicklingError)
      | Some b \<Rightarrow> (dir(path \<mapsto> b), None))"

definition store ::
  "codec \<Rightarrow> pyval \<Rightarrow> pyval \<Rightarrow> pyval \<Rightarrow> string option \<Rightarrow> datetime \<Rightarrow> directory
     \<Rightarrow> directory \<times> error option" where
  "store env result args kwargs name now dir =
     (case derive_key env (ensure_tuple args) (ensure_dict kwargs) of
        None \<Rightarrow> (dir, None)
      | Some key \<Rightarrow> write_pickle env (entry_name (file_prefix_of name key) now) result dir)"

section \<open>\<^verbatim>\<open>cache_this\<close>\<close>

text \<open>\<^verbatim>\<open>filename.split('_', 1)\<close>: one or two pieces.\<close>

definition split_once :: "char \<Rightarrow> string \<Rightarrow> string list" where
  "split_once c s =
     (if c \<in> set s then [takeWhile (\<lambda>x. x \<noteq> c) s, tl (dropWhile (\<lambda>x. x \<noteq> c) s)] else [s])"

text \<open>
  The \<^verbatim>\<open>try\<close> block of the decorator: unpacking the split into two names raises
  \<^verbatim>\<open>ValueError\<close> when there is one piece only, and so does \<^verbatim>\<open>strptime\<close> on a string
  that is not a timestamp followed by \<^verbatim>\<open>.pkl\<close>.
\<close>

definition cache_stamp :: "string \<Rightarrow> datetime option" where
  "cache_stamp filename =
     (case split_once CHR ''_'' filename of
        [u, timestamp_str] \<Rightarrow> strptime fmt_stamp_pkl timestamp_str
      | _ \<Rightarrow> None)"

text \<open>
  The loop of the wrapper. \<open>Inr (Some v)\<close>: the loop returned the cached value \<open>v\<close>;
  \<open>Inr None\<close>: the loop ended without a valid cache file.
\<close>

fun cache_scan ::
  "codec \<Rightarrow> string option \<Rightarrow> string \<Rightarrow> datetime \<Rightarrow> timedelta \<Rightarrow> string list \<Rightarrow> directory
     \<Rightarrow> directory \<times> (error + pyval option)" where
  "cache_scan env name prefix now time_limit [] dir = (dir, Inr None)"
| "cache_scan env name prefix now time_limit (filename # rest) dir =
     (if name_given name \<and> \<not> startswith filename (the name)
      then cache_scan env name prefix now time_limit rest dir
      else if startswith filename prefix
      then (case cache_stamp filename of
              None \<Rightarrow>
                (case dir filename of
                   None \<Rightarrow> (dir, Inl FileNotFoundError)
                 | Some b \<Rightarrow> cache_scan env name prefix now time_limit rest (dir(filename := None)))
            | Some timestamp \<Rightarrow>
                if dt_diff now timestamp \<le> time_limit
                then (case dir filename of
                        None \<Rightarrow> (dir, Inl FileNotFoundError)
                      | Some b \<Rightarrow>
                          (case pickle_loads env b of
                             None \<Rightarrow> (dir, Inl UnpicklingError)
                           | Some v \<Rightarrow> (dir, Inr (Some v))))
                else (case dir filename of
                        None \<Rightarrow> (dir, Inl FileNotFoundError)
                      | Some b \<Rightarrow>
                          cache_scan env name prefix now time_limit rest (dir(filename := None))))
      else cache_scan env name prefix now time_limit rest dir)"

text \<open>
  The key of the wrapper: \<^verbatim>\<open>args\<close> is the tuple of the positional arguments and
  \<^verbatim>\<open>kwargs\<close> the dictionary of the keyword arguments, both made by the call and so new
  objects; the names of the keyword arguments are taken to be objects of their own. When
  pickling them raises, the key is the string \<^verbatim>\<open>key_error\<close>.
\<close>

definition kwargs_dict :: "(string \<times> pyval) list \<Rightarrow> pyval" where
  "kwargs_dict kwargs = PDict (map (\<lambda>(k, v). (PStr k, v)) kwargs)"

definition wrapper_key :: "codec \<Rightarrow> pyval list \<Rightarrow> (string \<times> pyval) list \<Rightarrow> string" where
  "wrapper_key env args kwargs =
     (case derive_key env (PTuple args) (kwargs_dict kwargs) of
        None \<Rightarrow> ''key_error''
      | Some key \<Rightarrow> key)"

text \<open>
  \<^verbatim>\<open>cache_this(name, time_limit)(func)(*args, **kwargs)\<close>. The decorated function is a
  function of its arguments that returns a value or raises. The result is the directory,
  the number of times \<open>func\<close> was called, and the exception or the value returned.
\<close>

definition cache_this ::
  "codec \<Rightarrow> string option \<Rightarrow> timedelta
     \<Rightarrow> (pyval list \<Rightarrow> (string \<times> pyval) list \<Rightarrow> error + pyval)
     \<Rightarrow> pyval list \<Rightarrow> (string \<times> pyval) list \<Rightarrow> datetime \<Rightarrow> string list \<Rightarrow> directory
     \<Rightarrow> directory \<times> nat \<times> (error + pyval)" where
  "cache_this env name time_limit func args kwargs now listing dir =
     (let key = wrapper_key env args kwargs;
          prefix = file_prefix_of name key
      in case cache_scan env name prefix now time_limit listing dir of
           (dir', Inl e) \<Rightarrow> (dir', 0, Inl e)
         | (dir', Inr (Some v)) \<Rightarrow> (dir', 0, Inr v)
         | (dir', Inr None) \<Rightarrow>
             (case func args kwargs of
                Inl e \<Rightarrow> (dir', 1, Inl e)
              | Inr result \<Rightarrow>
                  (case write_pickle env (entry_name prefix now) result dir' of
                     (dir'', Some e) \<Rightarrow> (dir'', 1, Inl e)
                   | (dir'', None) \<Rightarrow> (dir'', 1, Inr result))))"

section \<open>What a scan does with a file\<close>

text \<open>
  The two tests at the head of each loop: a file is looked at when its name starts with
  the name, if one is given, and with the prefix.
\<close>

definition selected :: "string option \<Rightarrow> string \<Rightarrow> string \<Rightarrow> bool" where
  "selected name prefix filename =
     (\<not> (name_given name \<and> \<not> startswith filename (the name)) \<and> startswith filename prefix)"

text \<open>
  A selected file makes the loop of \<^verbatim>\<open>check\<close> do one of three things. It is
  \<^emph>\<open>malformed\<close> when the regular expression does not match its name, \<^emph>\<open>dead\<close> when the
  timestamp is not a date or is older than the time limit, and \<^emph>\<open>live\<close> otherwise.
\<close>

definition check_malformed :: "string \<Rightarrow> bool" where
  "check_malformed filename = (re_search_stamp filename = None)"

definition check_dead :: "datetime \<Rightarrow> timedelta \<Rightarrow> string \<Rightarrow> bool" where
  "check_dead now time_limit filename =
     (case re_search_stamp filename of
        None \<Rightarrow> False
      | Some s \<Rightarrow>
          (case strptime fmt_stamp s of
             None \<Rightarrow> True
           | Some timestamp \<Rightarrow> \<not> dt_diff now timestamp \<le> time_limit))"

definition check_live :: "datetime \<Rightarrow> timedelta \<Rightarrow> string \<Rightarrow> bool" where
  "check_live now time_limit filename =
     (case re_search_stamp filename of
        None \<Rightarrow> False
      | Some s \<Rightarrow>
          (case strptime fmt_stamp s of
             None \<Rightarrow> False
           | Some timestamp \<Rightarrow> dt_diff now timestamp \<le> time_limit))"

text \<open>Every selected file among \<open>fs\<close> is dead.\<close>

definition all_dead :: "string option \<Rightarrow> string \<Rightarrow> datetime \<Rightarrow> timedelta \<Rightarrow> string list \<Rightarrow> bool" where
  "all_dead name prefix now time_limit fs =
     list_all (\<lambda>g. selected name prefix g \<longrightarrow> check_dead now time_limit g) fs"

text \<open>The directory after the selected files among \<open>fs\<close> have been removed.\<close>

definition purge :: "string option \<Rightarrow> string \<Rightarrow> string list \<Rightarrow> directory \<Rightarrow> directory" where
  "purge name prefix fs dir =
     (\<lambda>f. if f \<in> set fs \<and> selected name prefix f then None else dir f)"

text \<open>A SHA-256 hex digest: 64 characters, each a lower-case hexadecimal digit.\<close>

definition is_hexdigest :: "string \<Rightarrow> bool" where
  "is_hexdigest key = (length key = 64 \<and> list_all (\<lambda>c. c \<in> set ''0123456789abcdef'') key)"

section \<open>A small codec for the examples\<close>

text \<open>
  The examples below run the functions with this codec in the place of \<^verbatim>\<open>pickle\<close> and
  \<^verbatim>\<open>sha256\<close>. It pickles every value that holds no \<open>PObj\<close>, writes a reference to a
  memo entry as the letter \<^verbatim>\<open>g\<close> and the number of the entry, unpickles the pickles of
  \<^verbatim>\<open>None\<close> and of the natural numbers and nothing else (in particular not an empty
  file), and its digest has 64 hexadecimal digits.
\<close>

fun demo_encode :: "pickled \<Rightarrow> string option" where
  "demo_encode CNone = Some ''N''"
| "demo_encode (CBool b) = Some (if b then ''t'' else ''f'')"
| "demo_encode (CInt i) =
     Some (''i'' @ (if i < 0 then ''-'' else []) @ replicate (nat \<bar>i\<bar>) CHR ''1'' @ '';'')"
| "demo_encode (CStr s) = Some (''s'' @ s @ '';'')"
| "demo_encode (CTuple xs) =
     map_option (\<lambda>bs. ''('' @ concat bs @ '')'') (those (map demo_encode xs))"
| "demo_encode (CList xs) =
     map_option (\<lambda>bs. ''['' @ concat bs @ '']'') (those (map demo_encode xs))"
| "demo_encode (CDict kvs) =
     map_option (\<lambda>bs. ''{'' @ concat bs @ ''}'')
       (those (map (\<lambda>kv. case demo_encode (fst kv) of
                            None \<Rightarrow> None
                          | Some a \<Rightarrow> map_option (\<lambda>b. a @ b) (demo_encode (snd kv))) kvs))"
| "demo_encode (CObj n) = None"
| "demo_encode (CGet k) = Some (''g'' @ replicate k CHR ''1'' @ '';'')"

definition demo_loads :: "string \<Rightarrow> pyval option" where
  "demo_loads b =
     (if b = ''N'' then Some PNone
      else if 2 \<le> length b \<and> hd b = CHR ''i'' \<and> last b = CHR '';''
              \<and> list_all (\<lambda>c. c = CHR ''1'') (butlast (tl b))
      then Some (PInt (int (length b) - 2))
      else None)"

definition demo_sha :: "string \<Rightarrow> string" where
  "demo_sha b =
     take 64 (map (\<lambda>c. ''0123456789abcdef'' ! (of_char c mod 16)) b @ replicate 64 CHR ''0'')"

definition demo_codec :: codec where
  "demo_codec =
     \<lparr>pickle_encode = demo_encode, pickle_partial = (\<lambda>v. []), pickle_loads = demo_loads,
      sha256_hexdigest = demo_sha\<rparr>"

text \<open>
  The function of the module's own example, \<^verbatim>\<open>my_function(a, b)\<close> with the body
  \<^verbatim>\<open>return a + b\<close>. \<open>py_add\<close> is \<^verbatim>\<open>a + b\<close> on the values of the model: the sum of integers
  and booleans, the concatenation of two strings, two tuples or two lists, a new object in
  each case, and \<^verbatim>\<open>TypeError\<close> otherwise (a \<open>PObj\<close> stands for an object without
  \<^verbatim>\<open>__add__\<close>). The two parameters are bound from the positional arguments and then from
  the keyword arguments; a call that does not bind both, or binds one twice, or names
  another parameter raises \<^verbatim>\<open>TypeError\<close>.
\<close>

fun strip_id :: "pyval \<Rightarrow> pyval" where
  "strip_id (PId n v) = strip_id v"
| "strip_id v = v"

definition int_value :: "pyval \<Rightarrow> int option" where
  "int_value v =
     (case v of
        PInt i \<Rightarrow> Some i
      | PBool b \<Rightarrow> Some (if b then 1 else 0)
      | _ \<Rightarrow> None)"

definition py_add :: "pyval \<Rightarrow> pyval \<Rightarrow> error + pyval" where
  "py_add a b =
     (case strip_id a of
        PStr s \<Rightarrow>
          (case strip_id b of PStr t \<Rightarrow> Inr (PStr (s @ t)) | _ \<Rightarrow> Inl (Raised ''TypeError''))
      | PTuple xs \<Rightarrow>
          (case strip_id b of
             PTuple ys \<Rightarrow> Inr (PTuple (xs @ ys))
           | _ \<Rightarrow> Inl (Raised ''TypeError''))
      | PList xs \<Rightarrow>
          (case strip_id b of
             PList ys \<Rightarrow> Inr (PList (xs @ ys))
           | _ \<Rightarrow> Inl (Raised ''TypeError''))
      | x \<Rightarrow>
          (case int_value x of
             None \<Rightarrow> Inl (Raised ''TypeError'')
           | Some i \<Rightarrow>
               (case int_value (strip_id b) of
                  None \<Rightarrow> Inl (Raised ''TypeError'')
                | Some j \<Rightarrow> Inr (PInt (i + j)))))"

definition my_function :: "pyval list \<Rightarrow> (string \<times> pyval) list \<Rightarrow> error + pyval" where
  "my_function args kwargs =
     (case (args, kwargs) of
        ([a, b], []) \<Rightarrow> py_add a b
      | ([a], [(k, b)]) \<Rightarrow> if k = ''b'' then py_add a b else Inl (Raised ''TypeError'')
      | ([], [(k, v), (k', v')]) \<Rightarrow>
          if k = ''a'' \<and> k' = ''b'' then py_add v v'
          else if k = ''b'' \<and> k' = ''a'' then py_add v' v
          else Inl (Raised ''TypeError'')
      | _ \<Rightarrow> Inl (Raised ''TypeError''))"

text \<open>
  The inputs of the examples: the arguments \<^verbatim>\<open>(1, 2)\<close> with their digest under the
  small codec, and a clock reading.
\<close>

definition demo_args :: pyval where
  "demo_args = PTuple [PInt 1, PInt 2]"

definition demo_key :: string where
  "demo_key = ''8891b911b9bd9000000000000000000000000000000000000000000000000000''"

definition noon :: datetime where
  "noon = \<lparr>year = 2024, month = 3, day = 1, hour = 12, minute = 0, second = 0,
           microsecond = 250000\<rparr>"

text \<open>
  The clock at 12:00 and \<open>s\<close> seconds, \<open>u\<close> microseconds of the same day, and the file that
  a \<^verbatim>\<open>store\<close> or a \<^verbatim>\<open>cache_this\<close> for the arguments \<^verbatim>\<open>(1, 2)\<close> under the name
  \<^verbatim>\<open>m\<close> writes during that second.
\<close>

definition clock :: "nat \<Rightarrow> nat \<Rightarrow> datetime" where
  "clock s u = noon\<lparr>second := s, microsecond := u\<rparr>"

definition demo_entry :: "nat \<Rightarrow> string" where
  "demo_entry s = ''m_'' @ demo_key @ ''_202403011200'' @ pad2 s @ ''.pkl''"





section \<open>Timestamps: printing and parsing\<close>

lemma digit_char_simps:
  "digit_char 0 = CHR ''0''" "digit_char 1 = CHR ''1''" "digit_char 2 = CHR ''2''"
  "digit_char 3 = CHR ''3''" "digit_char 4 = CHR ''4''" "digit_char 5 = CHR ''5''"
  "digit_char 6 = CHR ''6''" "digit_char 7 = CHR ''7''" "digit_char 8 = CHR ''8''"
  "digit_char 9 = CHR ''9''" "digit_char (Suc 0) = CHR ''1''"
  by (simp_all add: digit_char_def digits_def)

lemma digit_cases:
  "d < 10 \<Longrightarrow> d = 0 \<or> d = 1 \<or> d = 2 \<or> d = 3 \<or> d = 4 \<or> d = 5 \<or> d = 6 \<or> d = 7 \<or> d = 8 \<or> d = (9::nat)"
proof -
  assume "d < 10"
  then have "d \<in> set [0..<10]" by simp
  also have "[0..<10] = [0,1,2,3,4,5,6,7,8,9::nat]" by (simp add: upt_rec)
  finally show ?thesis by simp
qed

lemma digit_char_in_digits: "d < 10 \<Longrightarrow> digit_char d \<in> set digits"
  by (drule digit_cases, elim disjE) (simp_all add: digit_char_simps digits_def)

lemma is_digit_digit_char: "d < 10 \<Longrightarrow> is_digit (digit_char d)"
  by (simp add: is_digit_def digit_char_in_digits)

lemma digit_val_simps:
  "digit_val CHR ''0'' = 0" "digit_val CHR ''1'' = 1" "digit_val CHR ''2'' = 2"
  "digit_val CHR ''3'' = 3" "digit_val CHR ''4'' = 4" "digit_val CHR ''5'' = 5"
  "digit_val CHR ''6'' = 6" "digit_val CHR ''7'' = 7" "digit_val CHR ''8'' = 8"
  "digit_val CHR ''9'' = 9"
  by (simp_all add: digit_val_def digits_def)

lemma digit_val_digit_char: "d < 10 \<Longrightarrow> digit_val (digit_char d) = d"
  by (drule digit_cases, elim disjE) (simp_all add: digit_char_simps digit_val_simps)

lemma digit_char_not_blank: "d < 10 \<Longrightarrow> digit_char d \<noteq> CHR '' ''"
  by (drule digit_cases, elim disjE) (simp_all add: digit_char_simps)

lemma py_int_pad2: "n < 100 \<Longrightarrow> py_int (pad2 n) = n"
  by (simp add: py_int_def pad2_def digit_char_not_blank digit_val_digit_char)

lemma year_str_4:
  "1000 \<le> y \<Longrightarrow>
   year_str y = [digit_char (y div 1000 mod 10), digit_char (y div 100 mod 10),
                 digit_char (y div 10 mod 10), digit_char (y mod 10)]"
  by (simp add: year_str_def pad2_def)

lemma decimal4:
  fixes y :: nat
  assumes "y \<le> 9999"
  shows "10 * (10 * (10 * (y div 1000 mod 10) + y div 100 mod 10) + y div 10 mod 10) + y mod 10 = y"
proof -
  define q1 where "q1 = y div 10"
  define q2 where "q2 = q1 div 10"
  define q3 where "q3 = q2 div 10"
  have a: "y div 100 = q2" unfolding q2_def q1_def by (simp add: div_mult2_eq [symmetric])
  have b: "y div 1000 = q3" unfolding q3_def q2_def q1_def by (simp add: div_mult2_eq [symmetric])
  have c: "q3 mod 10 = q3" using assms b [symmetric] by simp
  have e1: "y = 10 * q1 + y mod 10" unfolding q1_def by simp
  have e2: "q1 = 10 * q2 + q1 mod 10" unfolding q2_def by simp
  have e3: "q2 = 10 * q3 + q2 mod 10" unfolding q3_def by simp
  have "10 * (10 * (10 * q3 + q2 mod 10) + q1 mod 10) + y mod 10 = y"
    using e1 e2 e3 by simp
  then show ?thesis by (simp add: a b c q1_def [symmetric])
qed

lemma py_int_year_str:
  assumes "1000 \<le> y" "y \<le> 9999"
  shows "py_int (year_str y) = y"
  using assms decimal4 [of y]
  by (simp add: year_str_4 py_int_def digit_char_not_blank digit_val_digit_char)

lemmas group_eval =
  upt_rec pad2_def digit_char_def digits_def match_group_def List.map_filter_def

lemma group_m:
  assumes "1 \<le> n" "n \<le> 12"
  shows "\<exists>xs. match_group re_m (pad2 n @ r) = (pad2 n, r) # xs"
proof -
  have "\<forall>n\<in>set [1..<13]. \<exists>xs. match_group re_m (pad2 n @ r) = (pad2 n, r) # xs"
    by (simp add: group_eval re_m_def)
  with assms show ?thesis by simp
qed

lemma group_d:
  assumes "1 \<le> n" "n \<le> 31"
  shows "\<exists>xs. match_group re_d (pad2 n @ r) = (pad2 n, r) # xs"
proof -
  have "\<forall>n\<in>set [1..<32]. \<exists>xs. match_group re_d (pad2 n @ r) = (pad2 n, r) # xs"
    by (simp add: group_eval re_d_def)
  with assms show ?thesis by simp
qed

lemma group_H:
  assumes "n < 24"
  shows "\<exists>xs. match_group re_H (pad2 n @ r) = (pad2 n, r) # xs"
proof -
  have "\<forall>n\<in>set [0..<24]. \<exists>xs. match_group re_H (pad2 n @ r) = (pad2 n, r) # xs"
    by (simp add: group_eval re_H_def)
  with assms show ?thesis by simp
qed

lemma group_M:
  assumes "n < 60"
  shows "\<exists>xs. match_group re_M (pad2 n @ r) = (pad2 n, r) # xs"
proof -
  have "\<forall>n\<in>set [0..<60]. \<exists>xs. match_group re_M (pad2 n @ r) = (pad2 n, r) # xs"
    by (simp add: group_eval re_M_def)
  with assms show ?thesis by simp
qed

lemma group_S:
  assumes "n < 60"
  shows "\<exists>xs. match_group re_S (pad2 n @ r) = (pad2 n, r) # xs"
proof -
  have "\<forall>n\<in>set [0..<60]. \<exists>xs. match_group re_S (pad2 n @ r) = (pad2 n, r) # xs"
    by (simp add: group_eval re_S_def)
  with assms show ?thesis by simp
qed

lemma group_Y:
  assumes "1000 \<le> y"
  shows "match_group re_Y (year_str y @ r) = [(year_str y, r)]"
  using assms
  by (simp add: year_str_4 re_Y_def match_group_def List.map_filter_def digit_char_in_digits)

lemma match_seq_first:
  assumes "match_group g s = (m, r) # xs" and "match_seq gs r = (ms, r') # ys"
  shows "\<exists>zs. match_seq (g # gs) s = (m # ms, r') # zs"
  using assms by simp

lemma days_in_month_le: "days_in_month y m \<le> 31"
  by (simp add: days_in_month_def)

lemma re_match_strftime:
  assumes v: "valid_datetime t" and y: "1000 \<le> year t"
  shows "re_match fmt_stamp (strftime_stamp t) =
           Some ([year_str (year t), pad2 (month t), pad2 (day t), pad2 (hour t),
                  pad2 (minute t), pad2 (second t)], [])"
proof -
  have d31: "day t \<le> 31"
    using v days_in_month_le [of "year t" "month t"] by (simp add: valid_datetime_def)
  obtain x6 where s6: "match_seq [re_S] (pad2 (second t) @ []) = ([pad2 (second t)], []) # x6"
    using match_seq_first [OF _ match_seq.simps(1)] group_S [of "second t" "[]"] v
    by (fastforce simp: valid_datetime_def)
  obtain x5 where s5: "match_seq [re_M, re_S] (pad2 (minute t) @ pad2 (second t) @ []) =
      ([pad2 (minute t), pad2 (second t)], []) # x5"
    using group_M [of "minute t" "pad2 (second t) @ []"] v match_seq_first [OF _ s6]
    by (fastforce simp: valid_datetime_def)
  obtain x4 where s4: "match_seq [re_H, re_M, re_S] (pad2 (hour t) @ pad2 (minute t) @ pad2 (second t) @ []) =
      ([pad2 (hour t), pad2 (minute t), pad2 (second t)], []) # x4"
    using group_H [of "hour t" "pad2 (minute t) @ pad2 (second t) @ []"] v match_seq_first [OF _ s5]
    by (fastforce simp: valid_datetime_def)
  obtain x3 where s3: "match_seq [re_d, re_H, re_M, re_S]
        (pad2 (day t) @ pad2 (hour t) @ pad2 (minute t) @ pad2 (second t) @ []) =
      ([pad2 (day t), pad2 (hour t), pad2 (minute t), pad2 (second t)], []) # x3"
    using group_d [of "day t" "pad2 (hour t) @ pad2 (minute t) @ pad2 (second t) @ []"] v d31
      match_seq_first [OF _ s4]
    by (fastforce simp: valid_datetime_def)
  obtain x2 where s2: "match_seq [re_m, re_d, re_H, re_M, re_S]
        (pad2 (month t) @ pad2 (day t) @ pad2 (hour t) @ pad2 (minute t) @ pad2 (second t) @ []) =
      ([pad2 (month t), pad2 (day t), pad2 (hour t), pad2 (minute t), pad2 (second t)], []) # x2"
    using group_m [of "month t" "pad2 (day t) @ pad2 (hour t) @ pad2 (minute t) @ pad2 (second t) @ []"] v
      match_seq_first [OF _ s3]
    by (fastforce simp: valid_datetime_def)
  obtain x1 where s1: "match_seq [re_Y, re_m, re_d, re_H, re_M, re_S]
        (year_str (year t) @ pad2 (month t) @ pad2 (day t) @ pad2 (hour t) @ pad2 (minute t) @ pad2 (second t) @ []) =
      ([year_str (year t), pad2 (month t), pad2 (day t), pad2 (hour t), pad2 (minute t), pad2 (second t)], []) # x1"
    using match_seq_first [OF group_Y [OF y] s2] by blast
  then show ?thesis
    by (simp add: re_match_def fmt_stamp_def strftime_stamp_def)
qed

lemma make_datetime_fields:
  "valid_datetime t \<Longrightarrow>
   make_datetime (year t) (month t) (day t) (hour t) (minute t) (second t)
     = Some (t\<lparr>microsecond := 0\<rparr>)"
  by (cases t) (simp add: make_datetime_def valid_datetime_def Let_def)

lemma strptime_strftime:
  assumes v: "valid_datetime t" and y: "1000 \<le> year t"
  shows "strptime fmt_stamp (strftime_stamp t) = Some (t\<lparr>microsecond := 0\<rparr>)"
proof -
  have d31: "day t \<le> 31"
    using v days_in_month_le [of "year t" "month t"] by (simp add: valid_datetime_def)
  have p: "py_int (year_str (year t)) = year t"
    "py_int (pad2 (month t)) = month t" "py_int (pad2 (day t)) = day t"
    "py_int (pad2 (hour t)) = hour t" "py_int (pad2 (minute t)) = minute t"
    "py_int (pad2 (second t)) = second t"
    using v y d31 by (simp_all add: py_int_year_str py_int_pad2 valid_datetime_def)
  show ?thesis
    by (simp add: strptime_def re_match_strftime [OF v y] p make_datetime_fields [OF v])
qed

section \<open>File names\<close>

lemma startswith_append [simp]: "startswith (p @ s) p"
  by (simp add: startswith_def)

lemma selected_entry_name:
  "selected name (file_prefix_of name key) (entry_name (file_prefix_of name key) t)"
  by (simp add: selected_def entry_name_def file_prefix_of_def startswith_def)

lemma length_strftime_stamp: "1000 \<le> year t \<Longrightarrow> length (strftime_stamp t) = 14"
  by (simp add: strftime_stamp_def year_str_4 pad2_def)

lemma is_digit_pad2: "list_all is_digit (pad2 n)"
  by (simp add: pad2_def is_digit_digit_char)

lemma digits_strftime_stamp: "1000 \<le> year t \<Longrightarrow> list_all is_digit (strftime_stamp t)"
  by (simp add: strftime_stamp_def year_str_4 is_digit_pad2 is_digit_digit_char)

lemma re_search_stamp_entry_name:
  assumes "1000 \<le> year t"
  shows "re_search_stamp (entry_name p t) = Some (strftime_stamp t)"
proof -
  let ?s = "strftime_stamp t"
  have n: "length ?s = 14" by (rule length_strftime_stamp [OF assms])
  have e: "entry_name p t = (p @ ''_'') @ ?s @ ''.pkl''" by (simp add: entry_name_def)
  have c: "chomp (entry_name p t) = entry_name p t" by (simp add: chomp_def entry_name_def)
  have l: "length (entry_name p t) = length p + 19" using n by (simp add: entry_name_def)
  have d18: "drop (Suc (length p)) (entry_name p t) = ?s @ ''.pkl''"
    by (simp add: entry_name_def)
  have d4: "drop (15 + length p) (entry_name p t) = ''.pkl''"
    using n by (simp add: entry_name_def)
  show ?thesis
    using n digits_strftime_stamp [OF assms]
    by (simp add: re_search_stamp_def c l d18 d4 Let_def)
qed

section \<open>The loop of check\<close>

lemma all_dead_iff:
  "all_dead name prefix now lim fs =
     (\<forall>g\<in>set fs. selected name prefix g \<longrightarrow> check_dead now lim g)"
  by (simp add: all_dead_def list_all_iff)

lemma check_scan_skip:
  "\<not> selected name prefix f \<Longrightarrow>
   check_scan env name prefix now lim (f # rest) dir = check_scan env name prefix now lim rest dir"
  by (auto simp: selected_def)

lemma check_scan_dead:
  assumes "selected name prefix f" "check_dead now lim f" "dir f = Some b"
  shows "check_scan env name prefix now lim (f # rest) dir =
         check_scan env name prefix now lim rest (dir(f := None))"
  using assms by (auto simp: selected_def check_dead_def split: option.splits)

lemma check_scan_live:
  assumes "selected name prefix f" "check_live now lim f" "dir f = Some b"
  shows "check_scan env name prefix now lim (f # rest) dir =
         (dir, case pickle_loads env b of None \<Rightarrow> Inl UnpicklingError | Some v \<Rightarrow> Inr (True, v))"
  using assms by (auto simp: selected_def check_live_def split: option.splits)

lemma check_scan_malformed:
  assumes "selected name prefix f" "check_malformed f"
  shows "check_scan env name prefix now lim (f # rest) dir = (dir, Inl AttributeError)"
  using assms by (auto simp: selected_def check_malformed_def)

lemma purge_Nil [simp]: "purge name prefix [] dir = dir"
  by (simp add: purge_def)

lemma purge_Cons_unselected:
  "\<not> selected name prefix f \<Longrightarrow> purge name prefix (f # fs) dir = purge name prefix fs dir"
  by (auto simp: purge_def)

lemma purge_Cons_selected:
  "selected name prefix f \<Longrightarrow>
   purge name prefix (f # fs) dir = purge name prefix fs (dir(f := None))"
  by (auto simp: purge_def)

lemma check_scan_dead_prefix:
  assumes "distinct pre" "set pre \<subseteq> dom dir"
    and "\<forall>f\<in>set pre. selected name prefix f \<longrightarrow> check_dead now lim f"
  shows "check_scan env name prefix now lim (pre @ rest) dir =
         check_scan env name prefix now lim rest (purge name prefix pre dir)"
  using assms
proof (induction pre arbitrary: dir)
  case Nil
  then show ?case by simp
next
  case (Cons f pre)
  show ?case
  proof (cases "selected name prefix f")
    case False
    with Cons show ?thesis
      by (simp add: check_scan_skip purge_Cons_unselected del: check_scan.simps)
  next
    case True
    from Cons.prems obtain b where b: "dir f = Some b" by auto
    have dead: "check_dead now lim f" using Cons.prems True by simp
    have sub: "set pre \<subseteq> dom (dir(f := None))" using Cons.prems by auto
    have "check_scan env name prefix now lim ((f # pre) @ rest) dir =
          check_scan env name prefix now lim (pre @ rest) (dir(f := None))"
      using check_scan_dead [of name prefix f now lim dir b env "pre @ rest"] True dead b by simp
    also have "\<dots> = check_scan env name prefix now lim rest (purge name prefix pre (dir(f := None)))"
    proof (rule Cons.IH)
      show "distinct pre" using Cons.prems by simp
      show "set pre \<subseteq> dom (dir(f := None))" by (rule sub)
      show "\<forall>g\<in>set pre. selected name prefix g \<longrightarrow> check_dead now lim g"
        using Cons.prems by simp
    qed
    finally show ?thesis by (simp add: purge_Cons_selected [OF True])
  qed
qed

lemma purge_outside: "f \<notin> set fs \<Longrightarrow> purge name prefix fs dir f = dir f"
  by (simp add: purge_def)

lemma check_scan_first_live:
  assumes l: "is_listing (pre @ f # post) dir"
    and dead: "\<forall>g\<in>set pre. selected name prefix g \<longrightarrow> check_dead now lim g"
    and sel: "selected name prefix f" and live: "check_live now lim f"
    and b: "dir f = Some b"
  shows "check_scan env name prefix now lim (pre @ f # post) dir =
         (purge name prefix pre dir,
          case pickle_loads env b of None \<Rightarrow> Inl UnpicklingError | Some v \<Rightarrow> Inr (True, v))"
proof -
  have d: "distinct pre" and s: "set pre \<subseteq> dom dir" and nf: "f \<notin> set pre"
    using l by (auto simp: is_listing_def)
  have "purge name prefix pre dir f = Some b" using nf b by (simp add: purge_outside)
  then show ?thesis
    using check_scan_dead_prefix [OF d s dead, of env "f # post"]
      check_scan_live [of name prefix f now lim "purge name prefix pre dir" b env post] sel live
    by simp
qed

lemma check_scan_all_dead:
  assumes l: "distinct fs" "set fs \<subseteq> dom dir"
    and dead: "\<forall>g\<in>set fs. selected name prefix g \<longrightarrow> check_dead now lim g"
  shows "check_scan env name prefix now lim fs dir = (purge name prefix fs dir, Inr (False, PNone))"
  using check_scan_dead_prefix [OF l dead, of env "[]"] by simp

section \<open>The examples' inputs\<close>

lemma replicate_numeral: "replicate (numeral k) x = x # replicate (pred_numeral k) x"
  by (simp add: numeral_eq_Suc)

lemma demo_key_args:
  "derive_key demo_codec (ensure_tuple demo_args) (ensure_dict PNone) = Some demo_key"
  by (simp add: derive_key_def pickle_dumps_def demo_codec_def ensure_tuple_def ensure_dict_def
      demo_sha_def demo_args_def demo_key_def replicate_numeral)

lemma is_hexdigest_demo_key: "is_hexdigest demo_key"
  by (simp add: is_hexdigest_def demo_key_def)

lemma valid_noon: "valid_datetime (noon\<lparr>second := s, microsecond := u\<rparr>) = (s < 60 \<and> u < 1000000)"
  by (simp add: valid_datetime_def noon_def days_in_month_def)

lemma strftime_noon:
  "s < 60 \<Longrightarrow> strftime_stamp (noon\<lparr>second := s, microsecond := u\<rparr>) = ''202403011200'' @ pad2 s"
  by (simp add: strftime_stamp_def noon_def year_str_def pad2_def digit_char_def digits_def)

lemma entry_name_noon:
  "s < 60 \<Longrightarrow>
   entry_name (file_prefix_of (Some ''m'') demo_key) (noon\<lparr>second := s, microsecond := u\<rparr>)
     = ''m_'' @ demo_key @ ''_202403011200'' @ pad2 s @ ''.pkl''"
  by (simp add: entry_name_def file_prefix_of_def name_given_def strftime_noon)

lemma dt_diff_noon:
  "dt_diff (noon\<lparr>second := s, microsecond := u\<rparr>) (noon\<lparr>second := s', microsecond := u'\<rparr>)
     = (int s - int s') * 1000000 + (int u - int u')"
  by (simp add: dt_diff_def to_micro_def toordinal_def noon_def algebra_simps)

lemma check_live_entry_name:
  assumes "valid_datetime t" "1000 \<le> year t"
  shows "check_live now lim (entry_name p t) = (dt_diff now (t\<lparr>microsecond := 0\<rparr>) \<le> lim)"
  using assms by (simp add: check_live_def re_search_stamp_entry_name strptime_strftime)

lemma check_dead_entry_name:
  assumes "valid_datetime t" "1000 \<le> year t"
  shows "check_dead now lim (entry_name p t) = (\<not> dt_diff now (t\<lparr>microsecond := 0\<rparr>) \<le> lim)"
  using assms by (simp add: check_dead_def re_search_stamp_entry_name strptime_strftime)

lemma store_key:
  assumes "derive_key env (ensure_tuple args) (ensure_dict kwargs) = Some key"
  shows "fst (store env v args kwargs name now dir) =
         dir(entry_name (file_prefix_of name key) now \<mapsto>
               (case pickle_dumps env v of None \<Rightarrow> pickle_partial env v | Some b \<Rightarrow> b))"
  using assms by (simp add: store_def write_pickle_def split: option.splits)

lemma strftime_stamp_microsecond [simp]:
  "strftime_stamp (t\<lparr>microsecond := u\<rparr>) = strftime_stamp t"
  by (simp add: strftime_stamp_def)

lemma entry_name_microsecond [simp]:
  "entry_name p (t\<lparr>microsecond := u\<rparr>) = entry_name p t"
  by (simp add: entry_name_def)

section \<open>Writing an entry\<close>

text \<open>
  C7, as the code has it. A \<^verbatim>\<open>store\<close> whose key can be derived writes exactly one file,
  named by the prefix and the clock reading to the second, and changes no file of another
  name. The name does not depend on the microseconds: a second \<^verbatim>\<open>store\<close> for the same key
  within the same second writes the same file, and the directory is then what the second
  \<^verbatim>\<open>store\<close> alone would have left.
\<close>

theorem store_writes_one_file:
  assumes "derive_key env (ensure_tuple args) (ensure_dict kwargs) = Some key"
  shows "(\<forall>f. f \<noteq> entry_name (file_prefix_of name key) now \<longrightarrow>
             fst (store env v args kwargs name now dir) f = dir f)
       \<and> fst (store env v args kwargs name now dir) (entry_name (file_prefix_of name key) now)
           = Some (case pickle_dumps env v of None \<Rightarrow> pickle_partial env v | Some b \<Rightarrow> b)
       \<and> fst (store env v' args kwargs name (now\<lparr>microsecond := u\<rparr>)
                (fst (store env v args kwargs name now dir)))
           = fst (store env v' args kwargs name (now\<lparr>microsecond := u\<rparr>) dir)"
  by (simp add: store_key [OF assms])

theorem store_writes_one_file_witness:
  "derive_key demo_codec (ensure_tuple demo_args) (ensure_dict PNone) = Some demo_key
   \<and> fst (store demo_codec (PInt 1) demo_args PNone (Some ''m'') noon Map.empty) ''other.txt'' = None
   \<and> fst (store demo_codec (PInt 1) demo_args PNone (Some ''m'') noon Map.empty)
        (entry_name (file_prefix_of (Some ''m'') demo_key) noon) = Some ''i1;''
   \<and> fst (store demo_codec (PInt 2) demo_args PNone (Some ''m'') (noon\<lparr>microsecond := 7\<rparr>)
            (fst (store demo_codec (PInt 1) demo_args PNone (Some ''m'') noon Map.empty)))
        = fst (store demo_codec (PInt 2) demo_args PNone (Some ''m'') (noon\<lparr>microsecond := 7\<rparr>)
            Map.empty)"
proof -
  have n: "''other.txt'' \<noteq> entry_name (file_prefix_of (Some ''m'') demo_key) noon"
    by (simp add: entry_name_def file_prefix_of_def name_given_def)
  have d: "pickle_dumps demo_codec (PInt 1) = Some ''i1;''"
    by (simp add: pickle_dumps_def demo_codec_def)
  show ?thesis
    using store_writes_one_file [OF demo_key_args, where name = "Some ''m''" and now = noon
        and v = "PInt 1" and dir = Map.empty and v' = "PInt 2" and u = 7] n d demo_key_args
    by simp
qed

text \<open>
  Two calls of \<^verbatim>\<open>store\<close> for the key \<^verbatim>\<open>(1, 2)\<close> under the name \<^verbatim>\<open>m\<close>, a quarter
  and three quarters of a second after 12:00:00. After the first call the directory holds
  one file, with the pickle of 1; after the second it holds the same one file, now with the
  pickle of 2.
\<close>

theorem store_same_second_counterexample:
  "fst (store demo_codec (PInt 1) demo_args PNone (Some ''m'') noon Map.empty)
     = [''m_'' @ demo_key @ ''_20240301120000.pkl'' \<mapsto> ''i1;'']
   \<and> fst (store demo_codec (PInt 2) demo_args PNone (Some ''m'') (noon\<lparr>microsecond := 750000\<rparr>)
            (fst (store demo_codec (PInt 1) demo_args PNone (Some ''m'') noon Map.empty)))
     = [''m_'' @ demo_key @ ''_20240301120000.pkl'' \<mapsto> ''i11;'']"
proof -
  have e: "entry_name (file_prefix_of (Some ''m'') demo_key) noon
             = ''m_'' @ demo_key @ ''_20240301120000.pkl''"
    using entry_name_noon [of 0 250000] by (simp add: noon_def pad2_def digit_char_def digits_def)
  have d: "pickle_dumps demo_codec (PInt 1) = Some ''i1;''"
    "pickle_dumps demo_codec (PInt 2) = Some ''i11;''"
    by (simp_all add: pickle_dumps_def demo_codec_def replicate_numeral)
  show ?thesis
    by (simp add: store_key [OF demo_key_args] e d)
qed

lemma check_key:
  assumes "derive_key env (ensure_tuple args) (ensure_dict kwargs) = Some key"
  shows "check env args kwargs name lim now listing dir =
         check_scan env name (file_prefix_of name key) now lim listing dir"
  using assms by (simp add: check_def)

section \<open>Which entry answers a lookup\<close>

text \<open>
  C4, as the code has it. \<^verbatim>\<open>check\<close> returns the first live entry in the order of the
  directory listing, whatever its timestamp: when every selected file listed before the
  entry \<open>f\<close> is dead, and \<open>f\<close> is selected and live and its content unpickles to \<open>v\<close>, the
  result is \<open>(True, v)\<close>. The selected files listed before \<open>f\<close> are removed; no file listed
  after \<open>f\<close> is read or removed.
\<close>

theorem check_returns_first_live:
  assumes key: "derive_key env (ensure_tuple args) (ensure_dict kwargs) = Some key"
    and listing: "is_listing (pre @ f # post) dir"
    and dead: "all_dead name (file_prefix_of name key) now time_limit pre"
    and sel: "selected name (file_prefix_of name key) f"
    and live: "check_live now time_limit f"
    and content: "dir f = Some b" "pickle_loads env b = Some v"
  shows "check env args kwargs name time_limit now (pre @ f # post) dir
           = (purge name (file_prefix_of name key) pre dir, Inr (True, v))"
  using check_scan_first_live [OF listing dead [unfolded all_dead_iff] sel live content(1), of env] content(2)
  by (simp add: check_key [OF key])

lemma valid_clock: "s < 60 \<Longrightarrow> u < 1000000 \<Longrightarrow> valid_datetime (clock s u)"
  by (simp add: clock_def valid_noon)

lemma year_clock: "1000 \<le> year (clock s u)"
  by (simp add: clock_def noon_def)

lemma entry_name_clock:
  "s < 60 \<Longrightarrow> entry_name (file_prefix_of (Some ''m'') demo_key) (clock s u) = demo_entry s"
  using entry_name_noon [where s = s and u = u] by (simp add: clock_def demo_entry_def)

lemma dt_diff_clock:
  "dt_diff (clock s u) ((clock s' u')\<lparr>microsecond := 0\<rparr>) = (int s - int s') * 1000000 + int u"
  using dt_diff_noon [where s = s and u = u and s' = s' and u' = 0]
  by (simp add: clock_def algebra_simps)

lemma check_live_demo_entry:
  assumes "s' < 60"
  shows "check_live (clock s u) lim (demo_entry s') = ((int s - int s') * 1000000 + int u \<le> lim)"
  using check_live_entry_name [OF valid_clock [OF assms, of 0] year_clock,
      of "clock s u" lim "file_prefix_of (Some ''m'') demo_key"]
  by (simp add: entry_name_clock [OF assms] dt_diff_clock)

lemma check_dead_demo_entry:
  assumes "s' < 60"
  shows "check_dead (clock s u) lim (demo_entry s') = (\<not> (int s - int s') * 1000000 + int u \<le> lim)"
  using check_dead_entry_name [OF valid_clock [OF assms, of 0] year_clock,
      of "clock s u" lim "file_prefix_of (Some ''m'') demo_key"]
  by (simp add: entry_name_clock [OF assms] dt_diff_clock)

lemma selected_demo_entry:
  "selected (Some ''m'') (file_prefix_of (Some ''m'') demo_key) (demo_entry s)"
  by (simp add: selected_def file_prefix_of_def name_given_def demo_entry_def startswith_def)

lemma demo_entry_eq [simp]:
  assumes "s < 60" "s' < 60"
  shows "(demo_entry s = demo_entry s') = (s = s')"
proof
  assume "demo_entry s = demo_entry s'"
  then have "pad2 s = pad2 s'" by (simp add: demo_entry_def)
  then have "py_int (pad2 s) = py_int (pad2 s')" by simp
  then show "s = s'" using assms by (simp add: py_int_pad2)
qed simp

lemma demo_loads_ints:
  "pickle_loads demo_codec ''i1;'' = Some (PInt 1)"
  "pickle_loads demo_codec ''i11;'' = Some (PInt 2)"
  "pickle_loads demo_codec [] = None"
  by (simp_all add: demo_codec_def demo_loads_def)

lemma demo_dumps_ints:
  "pickle_dumps demo_codec (PInt 1) = Some ''i1;''"
  "pickle_dumps demo_codec (PInt 2) = Some ''i11;''"
  by (simp_all add: pickle_dumps_def demo_codec_def replicate_numeral)

theorem check_returns_first_live_witness:
  "derive_key demo_codec (ensure_tuple demo_args) (ensure_dict PNone) = Some demo_key
   \<and> is_listing ([demo_entry 1] @ demo_entry 5 # [demo_entry 7])
        [demo_entry 1 \<mapsto> ''i1;'', demo_entry 5 \<mapsto> ''i11;'', demo_entry 7 \<mapsto> ''i1;'']
   \<and> all_dead (Some ''m'') (file_prefix_of (Some ''m'') demo_key) (clock 8 0) 5000000
        [demo_entry 1]
   \<and> selected (Some ''m'') (file_prefix_of (Some ''m'') demo_key) (demo_entry 5)
   \<and> check_live (clock 8 0) 5000000 (demo_entry 5)
   \<and> check demo_codec demo_args PNone (Some ''m'') 5000000 (clock 8 0)
        ([demo_entry 1] @ demo_entry 5 # [demo_entry 7])
        [demo_entry 1 \<mapsto> ''i1;'', demo_entry 5 \<mapsto> ''i11;'', demo_entry 7 \<mapsto> ''i1;'']
      = ([demo_entry 5 \<mapsto> ''i11;'', demo_entry 7 \<mapsto> ''i1;''], Inr (True, PInt 2))"
proof -
  let ?dir = "[demo_entry 1 \<mapsto> ''i1;'', demo_entry 5 \<mapsto> ''i11;'', demo_entry 7 \<mapsto> ''i1;'']"
  have l: "is_listing ([demo_entry 1] @ demo_entry 5 # [demo_entry 7]) ?dir"
    by (auto simp: is_listing_def)
  have d: "all_dead (Some ''m'') (file_prefix_of (Some ''m'') demo_key) (clock 8 0) 5000000
             [demo_entry 1]"
    by (simp add: all_dead_iff check_dead_demo_entry)
  have v: "check_live (clock 8 0) 5000000 (demo_entry 5)"
    by (simp add: check_live_demo_entry)
  have c: "?dir (demo_entry 5) = Some ''i11;''" by simp
  have p: "purge (Some ''m'') (file_prefix_of (Some ''m'') demo_key) [demo_entry 1] ?dir
            = [demo_entry 5 \<mapsto> ''i11;'', demo_entry 7 \<mapsto> ''i1;'']"
    by (rule ext) (simp add: purge_def selected_demo_entry)
  show ?thesis
    using check_returns_first_live [OF demo_key_args l d selected_demo_entry v c demo_loads_ints(2)]
      demo_key_args l d v selected_demo_entry
    by (simp only: p simp_thms)
qed

text \<open>
  Two entries for the same key, written at 12:00:05 and 12:00:07, both live at 12:00:08
  under a limit of one minute. The listing has the older one first: \<^verbatim>\<open>check\<close> returns its
  value, 1, and not the value 2 of the newer entry.
\<close>

theorem check_newest_counterexample:
  "check_live (clock 8 0) 60000000 (demo_entry 5)
   \<and> check_live (clock 8 0) 60000000 (demo_entry 7)
   \<and> is_listing [demo_entry 5, demo_entry 7] [demo_entry 5 \<mapsto> ''i1;'', demo_entry 7 \<mapsto> ''i11;'']
   \<and> check demo_codec demo_args PNone (Some ''m'') 60000000 (clock 8 0)
        [demo_entry 5, demo_entry 7] [demo_entry 5 \<mapsto> ''i1;'', demo_entry 7 \<mapsto> ''i11;'']
      = ([demo_entry 5 \<mapsto> ''i1;'', demo_entry 7 \<mapsto> ''i11;''], Inr (True, PInt 1))"
proof -
  let ?dir = "[demo_entry 5 \<mapsto> ''i1;'', demo_entry 7 \<mapsto> ''i11;'']"
  have l: "is_listing [demo_entry 5, demo_entry 7] ?dir"
    by (auto simp: is_listing_def)
  have v: "check_live (clock 8 0) 60000000 (demo_entry 5)"
    "check_live (clock 8 0) 60000000 (demo_entry 7)"
    by (simp_all add: check_live_demo_entry)
  have c: "?dir (demo_entry 5) = Some ''i1;''" by simp
  have "check_scan demo_codec (Some ''m'') (file_prefix_of (Some ''m'') demo_key) (clock 8 0)
          60000000 (demo_entry 5 # [demo_entry 7]) ?dir = (?dir, Inr (True, PInt 1))"
    using check_scan_live [where dir = ?dir and f = "demo_entry 5" and b = "''i1;''"
        and env = demo_codec and rest = "[demo_entry 7]", OF selected_demo_entry v(1) c]
    by (simp add: demo_loads_ints)
  then show ?thesis
    using l v by (simp add: check_key [OF demo_key_args])
qed

section \<open>Store, then look up\<close>

text \<open>
  C1, as the code has it. After \<^verbatim>\<open>store(v, args, kwargs, name)\<close> at the time \<open>t\<close>, a
  \<^verbatim>\<open>check\<close> with the same arguments whose time limit covers the age of the new entry
  returns \<open>(True, v)\<close>, provided that every selected file that the listing has before the
  new entry is dead (this holds when no other file of the directory starts with the
  prefix). The clock of \<^verbatim>\<open>store\<close> shows a year of four digits.
\<close>

theorem store_then_check:
  assumes key: "derive_key env (ensure_tuple args) (ensure_dict kwargs) = Some key"
    and dump: "pickle_dumps env v = Some b"
    and load: "pickle_loads env b = Some v"
    and valid: "valid_datetime t" "1000 \<le> year t"
    and fresh: "dt_diff now (t\<lparr>microsecond := 0\<rparr>) \<le> time_limit"
    and listing: "is_listing (pre @ entry_name (file_prefix_of name key) t # post)
                    (fst (store env v args kwargs name t dir))"
    and dead: "all_dead name (file_prefix_of name key) now time_limit pre"
  shows "check env args kwargs name time_limit now
           (pre @ entry_name (file_prefix_of name key) t # post)
           (fst (store env v args kwargs name t dir))
         = (purge name (file_prefix_of name key) pre (fst (store env v args kwargs name t dir)),
            Inr (True, v))"
proof -
  let ?e = "entry_name (file_prefix_of name key) t"
  let ?dir1 = "fst (store env v args kwargs name t dir)"
  have c: "?dir1 ?e = Some b" by (simp add: store_key [OF key] dump)
  have live: "check_live now time_limit ?e"
    using fresh by (simp add: check_live_entry_name [OF valid])
  show ?thesis
    using check_scan_first_live [OF listing dead [unfolded all_dead_iff] selected_entry_name live c, of env] load
    by (simp add: check_key [OF key])
qed

theorem store_then_check_witness:
  "derive_key demo_codec (ensure_tuple demo_args) (ensure_dict PNone) = Some demo_key
   \<and> pickle_dumps demo_codec (PInt 2) = Some ''i11;''
   \<and> pickle_loads demo_codec ''i11;'' = Some (PInt 2)
   \<and> valid_datetime (clock 7 250000) \<and> 1000 \<le> year (clock 7 250000)
   \<and> dt_diff (clock 8 0) ((clock 7 250000)\<lparr>microsecond := 0\<rparr>) \<le> 5000000
   \<and> is_listing ([demo_entry 1] @ demo_entry 7 # [])
        (fst (store demo_codec (PInt 2) demo_args PNone (Some ''m'') (clock 7 250000)
               [demo_entry 1 \<mapsto> ''i1;'']))
   \<and> all_dead (Some ''m'') (file_prefix_of (Some ''m'') demo_key) (clock 8 0) 5000000
        [demo_entry 1]
   \<and> check demo_codec demo_args PNone (Some ''m'') 5000000 (clock 8 0)
        ([demo_entry 1] @ demo_entry 7 # [])
        (fst (store demo_codec (PInt 2) demo_args PNone (Some ''m'') (clock 7 250000)
               [demo_entry 1 \<mapsto> ''i1;'']))
      = ([demo_entry 7 \<mapsto> ''i11;''], Inr (True, PInt 2))"
proof -
  let ?dir1 = "fst (store demo_codec (PInt 2) demo_args PNone (Some ''m'') (clock 7 250000)
               [demo_entry 1 \<mapsto> ''i1;''])"
  have s: "?dir1 = [demo_entry 1 \<mapsto> ''i1;'', demo_entry 7 \<mapsto> ''i11;'']"
    by (simp add: store_key [OF demo_key_args] entry_name_clock demo_dumps_ints)
  have e: "entry_name (file_prefix_of (Some ''m'') demo_key) (clock 7 250000) = demo_entry 7"
    by (simp add: entry_name_clock)
  have v: "valid_datetime (clock 7 250000)" by (simp add: valid_clock)
  have f: "dt_diff (clock 8 0) ((clock 7 250000)\<lparr>microsecond := 0\<rparr>) \<le> 5000000"
    by (simp add: dt_diff_clock)
  have l: "is_listing ([demo_entry 1] @ demo_entry 7 # []) ?dir1"
    unfolding s by (auto simp: is_listing_def)
  have d: "all_dead (Some ''m'') (file_prefix_of (Some ''m'') demo_key) (clock 8 0) 5000000
             [demo_entry 1]"
    by (simp add: all_dead_iff check_dead_demo_entry)
  have p: "purge (Some ''m'') (file_prefix_of (Some ''m'') demo_key) [demo_entry 1] ?dir1
            = [demo_entry 7 \<mapsto> ''i11;'']"
    unfolding s by (rule ext) (simp add: purge_def selected_demo_entry)
  show ?thesis
    using store_then_check [OF demo_key_args demo_dumps_ints(2) demo_loads_ints(2) v year_clock f,
        where name = "Some ''m''" and pre = "[demo_entry 1]" and post = "[]"
          and dir = "[demo_entry 1 \<mapsto> ''i1;'']"]
      demo_key_args demo_dumps_ints(2) demo_loads_ints(2) v year_clock f l d
    by (simp only: e p simp_thms)
qed

text \<open>
  The directory holds an entry for the key, written at 12:00:05 with the value 1. A
  \<^verbatim>\<open>store\<close> of the value 2 at 12:00:07 adds a second entry. The listing has the older
  entry first, and the \<^verbatim>\<open>check\<close> at 12:00:08 returns 1, not the value just stored.
\<close>

theorem store_then_check_counterexample:
  "is_listing [demo_entry 5, demo_entry 7]
     (fst (store demo_codec (PInt 2) demo_args PNone (Some ''m'') (clock 7 0)
            [demo_entry 5 \<mapsto> ''i1;'']))
   \<and> snd (check demo_codec demo_args PNone (Some ''m'') 60000000 (clock 8 0)
            [demo_entry 5, demo_entry 7]
            (fst (store demo_codec (PInt 2) demo_args PNone (Some ''m'') (clock 7 0)
                   [demo_entry 5 \<mapsto> ''i1;''])))
      = Inr (True, PInt 1)"
proof -
  let ?dir1 = "fst (store demo_codec (PInt 2) demo_args PNone (Some ''m'') (clock 7 0)
               [demo_entry 5 \<mapsto> ''i1;''])"
  have s: "?dir1 = [demo_entry 5 \<mapsto> ''i1;'', demo_entry 7 \<mapsto> ''i11;'']"
    by (simp add: store_key [OF demo_key_args] entry_name_clock demo_dumps_ints)
  have l: "is_listing [demo_entry 5, demo_entry 7] ?dir1"
    unfolding s by (auto simp: is_listing_def)
  have v: "check_live (clock 8 0) 60000000 (demo_entry 5)"
    by (simp add: check_live_demo_entry)
  have c: "?dir1 (demo_entry 5) = Some ''i1;''" unfolding s by simp
  have "check_scan demo_codec (Some ''m'') (file_prefix_of (Some ''m'') demo_key) (clock 8 0)
          60000000 (demo_entry 5 # [demo_entry 7]) ?dir1 = (?dir1, Inr (True, PInt 1))"
    using check_scan_live [where dir = ?dir1 and f = "demo_entry 5" and b = "''i1;''"
        and env = demo_codec and rest = "[demo_entry 7]", OF selected_demo_entry v c]
    by (simp add: demo_loads_ints)
  then show ?thesis
    using l by (simp add: check_key [OF demo_key_args])
qed

lemma to_micro_truncated: "to_micro (t\<lparr>microsecond := 0\<rparr>) \<le> to_micro t"
  by (simp add: to_micro_def toordinal_def)

lemma to_micro_clock:
  "to_micro (clock s u) = to_micro (clock 0 0) + int s * 1000000 + int u"
  by (simp add: to_micro_def toordinal_def clock_def noon_def algebra_simps)

section \<open>Expiry\<close>

text \<open>
  C5, as the code has it. A \<^verbatim>\<open>store\<close> at the time \<open>t\<close> is followed by a \<^verbatim>\<open>check\<close> of
  the same key at a time later than \<open>t\<close> plus the time limit. When every other selected file
  of the listing is dead as well (this holds when the new entry is the only file that
  starts with the prefix), \<^verbatim>\<open>check\<close> returns \<open>(False, None)\<close>, and the entry is no longer
  in the directory: the selected files have all been removed. The clock of \<^verbatim>\<open>store\<close>
  shows a year of four digits.
\<close>

theorem store_then_check_expired:
  assumes key: "derive_key env (ensure_tuple args) (ensure_dict kwargs) = Some key"
    and valid: "valid_datetime t" "1000 \<le> year t"
    and late: "to_micro t + time_limit < to_micro now"
    and listing: "is_listing listing (fst (store env v args kwargs name t dir))"
    and others: "all_dead name (file_prefix_of name key) now time_limit
          (removeAll (entry_name (file_prefix_of name key) t) listing)"
  shows "check env args kwargs name time_limit now listing
           (fst (store env v args kwargs name t dir))
         = (purge name (file_prefix_of name key) listing
              (fst (store env v args kwargs name t dir)), Inr (False, PNone))
       \<and> purge name (file_prefix_of name key) listing
            (fst (store env v args kwargs name t dir)) (entry_name (file_prefix_of name key) t)
         = None"
proof -
  let ?p = "file_prefix_of name key"
  let ?e = "entry_name ?p t"
  let ?dir1 = "fst (store env v args kwargs name t dir)"
  have "dt_diff now (t\<lparr>microsecond := 0\<rparr>) > time_limit"
    using late to_micro_truncated [of t] by (simp add: dt_diff_def)
  then have e_dead: "check_dead now time_limit ?e"
    by (simp add: check_dead_entry_name [OF valid])
  have dead: "\<forall>g\<in>set listing. selected name ?p g \<longrightarrow> check_dead now time_limit g"
  proof (intro ballI impI)
    fix g
    assume g: "g \<in> set listing" "selected name ?p g"
    show "check_dead now time_limit g"
    proof (cases "g = ?e")
      case True
      then show ?thesis using e_dead by simp
    next
      case False
      then show ?thesis using others g by (simp add: all_dead_iff)
    qed
  qed
  have "?e \<in> dom ?dir1" by (simp add: store_key [OF key])
  then have mem: "?e \<in> set listing" using listing by (simp add: is_listing_def)
  have d: "distinct listing" and s: "set listing \<subseteq> dom ?dir1"
    using listing by (simp_all add: is_listing_def)
  have "check_scan env name ?p now time_limit listing ?dir1
          = (purge name ?p listing ?dir1, Inr (False, PNone))"
    by (rule check_scan_all_dead [OF d s dead])
  moreover have "purge name ?p listing ?dir1 ?e = None"
    using mem by (simp add: purge_def selected_entry_name)
  ultimately show ?thesis by (simp add: check_key [OF key])
qed

theorem store_then_check_expired_witness:
  "derive_key demo_codec (ensure_tuple demo_args) (ensure_dict PNone) = Some demo_key
   \<and> valid_datetime (clock 2 250000) \<and> 1000 \<le> year (clock 2 250000)
   \<and> to_micro (clock 2 250000) + 5000000 < to_micro (clock 8 0)
   \<and> is_listing [demo_entry 2, ''notes.txt'']
        (fst (store demo_codec (PInt 1) demo_args PNone (Some ''m'') (clock 2 250000)
               [''notes.txt'' \<mapsto> ''hello'']))
   \<and> all_dead (Some ''m'') (file_prefix_of (Some ''m'') demo_key) (clock 8 0) 5000000
        (removeAll (entry_name (file_prefix_of (Some ''m'') demo_key) (clock 2 250000))
           [demo_entry 2, ''notes.txt''])
   \<and> check demo_codec demo_args PNone (Some ''m'') 5000000 (clock 8 0)
        [demo_entry 2, ''notes.txt'']
        (fst (store demo_codec (PInt 1) demo_args PNone (Some ''m'') (clock 2 250000)
               [''notes.txt'' \<mapsto> ''hello'']))
      = ([''notes.txt'' \<mapsto> ''hello''], Inr (False, PNone))"
proof -
  let ?dir1 = "fst (store demo_codec (PInt 1) demo_args PNone (Some ''m'') (clock 2 250000)
               [''notes.txt'' \<mapsto> ''hello''])"
  have n: "demo_entry 2 \<noteq> ''notes.txt''" by (simp add: demo_entry_def)
  have s: "?dir1 = [''notes.txt'' \<mapsto> ''hello'', demo_entry 2 \<mapsto> ''i1;'']"
    by (simp add: store_key [OF demo_key_args] entry_name_clock demo_dumps_ints)
  have e: "entry_name (file_prefix_of (Some ''m'') demo_key) (clock 2 250000) = demo_entry 2"
    by (simp add: entry_name_clock)
  have v: "valid_datetime (clock 2 250000)" by (simp add: valid_clock)
  have f: "to_micro (clock 2 250000) + 5000000 < to_micro (clock 8 0)"
    using to_micro_clock [of 2 250000] to_micro_clock [of 8 0] by simp
  have l: "is_listing [demo_entry 2, ''notes.txt''] ?dir1"
    unfolding s using n by (auto simp: is_listing_def)
  have ns: "\<not> selected (Some ''m'') (file_prefix_of (Some ''m'') demo_key) ''notes.txt''"
    by (simp add: selected_def name_given_def startswith_def)
  have d: "all_dead (Some ''m'') (file_prefix_of (Some ''m'') demo_key) (clock 8 0) 5000000
          (removeAll (entry_name (file_prefix_of (Some ''m'') demo_key) (clock 2 250000))
             [demo_entry 2, ''notes.txt''])"
    using ns n by (simp add: all_dead_iff e)
  have p: "purge (Some ''m'') (file_prefix_of (Some ''m'') demo_key) [demo_entry 2, ''notes.txt'']
             ?dir1 = [''notes.txt'' \<mapsto> ''hello'']"
    unfolding s using ns n by (intro ext) (auto simp: purge_def selected_demo_entry)
  show ?thesis
    using store_then_check_expired [OF demo_key_args v year_clock f l d]
      demo_key_args v year_clock f l d
    by (simp only: p simp_thms)
qed

text \<open>
  A \<^verbatim>\<open>store\<close> of 1 at 12:00:02 and a \<^verbatim>\<open>store\<close> of 2 for the same key at 12:00:09. At
  12:00:10, with a limit of five seconds, the first entry has expired and the second has
  not. The listing has the second entry first: \<^verbatim>\<open>check\<close> returns \<open>(True, 2)\<close>, and the
  expired entry is still in the directory.
\<close>

theorem store_then_check_expired_counterexample:
  "to_micro (clock 2 0) + 5000000 < to_micro (clock 10 0)
   \<and> is_listing [demo_entry 9, demo_entry 2]
        (fst (store demo_codec (PInt 2) demo_args PNone (Some ''m'') (clock 9 0)
          (fst (store demo_codec (PInt 1) demo_args PNone (Some ''m'') (clock 2 0) Map.empty))))
   \<and> check demo_codec demo_args PNone (Some ''m'') 5000000 (clock 10 0)
        [demo_entry 9, demo_entry 2]
        (fst (store demo_codec (PInt 2) demo_args PNone (Some ''m'') (clock 9 0)
          (fst (store demo_codec (PInt 1) demo_args PNone (Some ''m'') (clock 2 0) Map.empty))))
      = ([demo_entry 2 \<mapsto> ''i1;'', demo_entry 9 \<mapsto> ''i11;''], Inr (True, PInt 2))"
proof -
  let ?dir2 = "fst (store demo_codec (PInt 2) demo_args PNone (Some ''m'') (clock 9 0)
          (fst (store demo_codec (PInt 1) demo_args PNone (Some ''m'') (clock 2 0) Map.empty)))"
  have s: "?dir2 = [demo_entry 2 \<mapsto> ''i1;'', demo_entry 9 \<mapsto> ''i11;'']"
    by (simp add: store_key [OF demo_key_args] entry_name_clock demo_dumps_ints)
  have f: "to_micro (clock 2 0) + 5000000 < to_micro (clock 10 0)"
    using to_micro_clock [of 2 0] to_micro_clock [of 10 0] by simp
  have l: "is_listing [demo_entry 9, demo_entry 2] ?dir2"
    unfolding s by (auto simp: is_listing_def)
  have v: "check_live (clock 10 0) 5000000 (demo_entry 9)"
    by (simp add: check_live_demo_entry)
  have c: "[demo_entry 2 \<mapsto> ''i1;'', demo_entry 9 \<mapsto> ''i11;''] (demo_entry 9) = Some ''i11;''"
    by simp
  have "check_scan demo_codec (Some ''m'') (file_prefix_of (Some ''m'') demo_key) (clock 10 0)
          5000000 (demo_entry 9 # [demo_entry 2]) [demo_entry 2 \<mapsto> ''i1;'', demo_entry 9 \<mapsto> ''i11;'']
        = ([demo_entry 2 \<mapsto> ''i1;'', demo_entry 9 \<mapsto> ''i11;''], Inr (True, PInt 2))"
    using check_scan_live [where dir = "[demo_entry 2 \<mapsto> ''i1;'', demo_entry 9 \<mapsto> ''i11;'']"
        and f = "demo_entry 9" and b = "''i11;''"
        and env = demo_codec and rest = "[demo_entry 2]", OF selected_demo_entry v c]
    by (simp add: demo_loads_ints)
  then show ?thesis
    using l f by (simp add: check_key [OF demo_key_args] s)
qed

section \<open>An entry that does not unpickle\<close>

text \<open>
  C9, as the code has it. When the first selected file that is not dead is live and its
  content does not unpickle, the exception of \<^verbatim>\<open>pickle.load\<close> leaves \<^verbatim>\<open>check\<close>: there
  is no handler around the load. The entry stays in the directory with its content.
\<close>

theorem check_unpickling_error:
  assumes key: "derive_key env (ensure_tuple args) (ensure_dict kwargs) = Some key"
    and listing: "is_listing (pre @ f # post) dir"
    and dead: "all_dead name (file_prefix_of name key) now time_limit pre"
    and sel: "selected name (file_prefix_of name key) f"
    and live: "check_live now time_limit f"
    and content: "dir f = Some b" "pickle_loads env b = None"
  shows "check env args kwargs name time_limit now (pre @ f # post) dir
           = (purge name (file_prefix_of name key) pre dir, Inl UnpicklingError)
       \<and> purge name (file_prefix_of name key) pre dir f = Some b"
proof -
  have "f \<notin> set pre" using listing by (simp add: is_listing_def)
  then have "purge name (file_prefix_of name key) pre dir f = Some b"
    using content(1) by (simp add: purge_outside)
  then show ?thesis
    using check_scan_first_live [OF listing dead [unfolded all_dead_iff] sel live content(1), of env] content(2)
    by (simp add: check_key [OF key])
qed

theorem check_unpickling_error_witness:
  "derive_key demo_codec (ensure_tuple demo_args) (ensure_dict PNone) = Some demo_key
   \<and> is_listing ([demo_entry 2] @ demo_entry 5 # [demo_entry 7])
        [demo_entry 2 \<mapsto> ''i1;'', demo_entry 5 \<mapsto> [], demo_entry 7 \<mapsto> ''i1;'']
   \<and> all_dead (Some ''m'') (file_prefix_of (Some ''m'') demo_key) (clock 8 0) 5000000
        [demo_entry 2]
   \<and> selected (Some ''m'') (file_prefix_of (Some ''m'') demo_key) (demo_entry 5)
   \<and> check_live (clock 8 0) 5000000 (demo_entry 5)
   \<and> pickle_loads demo_codec [] = None
   \<and> check demo_codec demo_args PNone (Some ''m'') 5000000 (clock 8 0)
        ([demo_entry 2] @ demo_entry 5 # [demo_entry 7])
        [demo_entry 2 \<mapsto> ''i1;'', demo_entry 5 \<mapsto> [], demo_entry 7 \<mapsto> ''i1;'']
      = ([demo_entry 5 \<mapsto> [], demo_entry 7 \<mapsto> ''i1;''], Inl UnpicklingError)"
proof -
  let ?dir = "[demo_entry 2 \<mapsto> ''i1;'', demo_entry 5 \<mapsto> [], demo_entry 7 \<mapsto> ''i1;'']"
  have l: "is_listing ([demo_entry 2] @ demo_entry 5 # [demo_entry 7]) ?dir"
    by (auto simp: is_listing_def)
  have d: "all_dead (Some ''m'') (file_prefix_of (Some ''m'') demo_key) (clock 8 0) 5000000
             [demo_entry 2]"
    by (simp add: all_dead_iff check_dead_demo_entry)
  have v: "check_live (clock 8 0) 5000000 (demo_entry 5)"
    by (simp add: check_live_demo_entry)
  have c: "?dir (demo_entry 5) = Some []" by simp
  have p: "purge (Some ''m'') (file_prefix_of (Some ''m'') demo_key) [demo_entry 2] ?dir
            = [demo_entry 5 \<mapsto> [], demo_entry 7 \<mapsto> ''i1;'']"
    by (rule ext) (simp add: purge_def selected_demo_entry)
  show ?thesis
    using check_unpickling_error [OF demo_key_args l d selected_demo_entry v c demo_loads_ints(3)]
      demo_key_args l d v selected_demo_entry demo_loads_ints(3)
    by (simp only: p simp_thms)
qed

text \<open>
  The only entry for the key is an empty file, one second old. \<^verbatim>\<open>check\<close> does not return
  \<open>(False, None)\<close>: it raises, and the file is still there.
\<close>

theorem check_unpickling_error_counterexample:
  "check_live (clock 8 0) 60000000 (demo_entry 7)
   \<and> pickle_loads demo_codec [] = None
   \<and> check demo_codec demo_args PNone (Some ''m'') 60000000 (clock 8 0)
        [demo_entry 7] [demo_entry 7 \<mapsto> []]
      = ([demo_entry 7 \<mapsto> []], Inl UnpicklingError)"
proof -
  have v: "check_live (clock 8 0) 60000000 (demo_entry 7)"
    by (simp add: check_live_demo_entry)
  have c: "[demo_entry 7 \<mapsto> []] (demo_entry 7) = Some []" by simp
  have "check_scan demo_codec (Some ''m'') (file_prefix_of (Some ''m'') demo_key) (clock 8 0)
          60000000 (demo_entry 7 # []) [demo_entry 7 \<mapsto> []]
        = ([demo_entry 7 \<mapsto> []], Inl UnpicklingError)"
    using check_scan_live [where dir = "[demo_entry 7 \<mapsto> []]"
        and f = "demo_entry 7" and b = "[]"
        and env = demo_codec and rest = "[]", OF selected_demo_entry v c]
    by (simp add: demo_loads_ints)
  then show ?thesis
    using v by (simp add: check_key [OF demo_key_args] demo_loads_ints)
qed

section \<open>A file name without a timestamp\<close>

text \<open>
  C3. The directory holds one file, whose name starts with the prefix of the key and ends in
  \<^verbatim>\<open>_garbage.pkl\<close>. The claim is that \<^verbatim>\<open>check\<close> removes it and returns
  \<open>(False, None)\<close>. The regular expression does not match the name, \<^verbatim>\<open>match\<close> is
  \<^verbatim>\<open>None\<close>, and \<^verbatim>\<open>match.group(1)\<close> raises \<^verbatim>\<open>AttributeError\<close>, which the handler for
  \<^verbatim>\<open>ValueError\<close> and \<^verbatim>\<open>TypeError\<close> lets through: \<^verbatim>\<open>check\<close> raises and the file stays.
\<close>

theorem check_malformed_name_raises:
  "check demo_codec demo_args PNone (Some ''m'') 60000000 (clock 8 0)
     [''m_'' @ demo_key @ ''_garbage.pkl'']
     [''m_'' @ demo_key @ ''_garbage.pkl'' \<mapsto> ''i1;'']
   = ([''m_'' @ demo_key @ ''_garbage.pkl'' \<mapsto> ''i1;''], Inl AttributeError)"
proof -
  let ?f = "''m_'' @ demo_key @ ''_garbage.pkl''"
  have s: "selected (Some ''m'') (file_prefix_of (Some ''m'') demo_key) ?f"
    by (simp add: selected_def file_prefix_of_def name_given_def startswith_def)
  have m: "check_malformed ?f"
    by (simp add: check_malformed_def re_search_stamp_def chomp_def demo_key_def is_digit_def
        digits_def Let_def)
  show ?thesis
    using check_scan_malformed [OF s m, where env = demo_codec and rest = "[]"]
    by (simp add: check_key [OF demo_key_args])
qed

section \<open>Files that a scan does not select\<close>

lemma check_scan_Cons_unselected:
  "\<not> selected name prefix f \<Longrightarrow>
   check_scan env name prefix now lim (f # rest) dir = check_scan env name prefix now lim rest dir"
  by (rule check_scan_skip)

lemma check_scan_Cons_selected:
  "selected name prefix f \<Longrightarrow>
   check_scan env name prefix now lim (f # rest) dir =
     (case re_search_stamp f of
        None \<Rightarrow> (dir, Inl AttributeError)
      | Some s \<Rightarrow>
          (case strptime fmt_stamp s of
             None \<Rightarrow>
               (case dir f of
                  None \<Rightarrow> (dir, Inl FileNotFoundError)
                | Some b \<Rightarrow> check_scan env name prefix now lim rest (dir(f := None)))
           | Some ts \<Rightarrow>
               if dt_diff now ts \<le> lim
               then (case dir f of
                       None \<Rightarrow> (dir, Inl FileNotFoundError)
                     | Some b \<Rightarrow>
                         (case pickle_loads env b of
                            None \<Rightarrow> (dir, Inl UnpicklingError)
                          | Some v \<Rightarrow> (dir, Inr (True, v))))
               else (case dir f of
                       None \<Rightarrow> (dir, Inl FileNotFoundError)
                     | Some b \<Rightarrow> check_scan env name prefix now lim rest (dir(f := None)))))"
  by (auto simp: selected_def)

lemma check_scan_frame:
  assumes "\<not> selected name prefix e"
  shows "fst (check_scan env name prefix now lim listing dir) e = dir e"
proof (induction listing arbitrary: dir)
  case Nil
  show ?case by simp
next
  case (Cons f rest)
  show ?case
  proof (cases "selected name prefix f")
    case False
    then show ?thesis by (simp add: check_scan_Cons_unselected Cons.IH del: check_scan.simps)
  next
    case True
    then have "f \<noteq> e" using assms by auto
    then show ?thesis
      by (simp add: check_scan_Cons_selected [OF True] Cons.IH del: check_scan.simps
          split: option.splits)
  qed
qed

lemma check_scan_removeAll:
  assumes "\<not> selected name prefix e"
  shows "check_scan env name prefix now lim (removeAll e listing) dir =
         check_scan env name prefix now lim listing dir"
proof (induction listing arbitrary: dir)
  case Nil
  show ?case by simp
next
  case (Cons f rest)
  show ?case
  proof (cases "selected name prefix f")
    case False
    show ?thesis
    proof (cases "f = e")
      case True
      then show ?thesis
        using assms by (simp add: check_scan_Cons_unselected Cons.IH del: check_scan.simps)
    next
      case neq: False
      then show ?thesis
        using False by (simp add: check_scan_Cons_unselected Cons.IH del: check_scan.simps)
    qed
  next
    case True
    then have "f \<noteq> e" using assms by auto
    then have L: "removeAll e (f # rest) = f # removeAll e rest" by simp
    show ?thesis
      by (simp only: L check_scan_Cons_selected [OF True] Cons.IH)
  qed
qed

lemma check_scan_none_selected:
  "list_all (\<lambda>g. \<not> selected name prefix g) fs \<Longrightarrow>
   check_scan env name prefix now lim fs dir = (dir, Inr (False, PNone))"
  by (induction fs) (simp_all add: check_scan_Cons_unselected del: check_scan.simps(2))

section \<open>Names of two namespaces\<close>

lemma startswith_iff: "startswith s p = (\<exists>z. s = p @ z)"
proof
  assume "startswith s p"
  then have "s = p @ drop (length p) s"
    by (metis append_take_drop_id startswith_def)
  then show "\<exists>z. s = p @ z" ..
next
  assume "\<exists>z. s = p @ z"
  then show "startswith s p" by (auto simp: startswith_def)
qed

lemma hexdigest_no_underscore: "is_hexdigest key \<Longrightarrow> CHR ''_'' \<notin> set key"
  by (auto simp: is_hexdigest_def list_all_iff)

lemma length_strftime_stamp_le: "length (strftime_stamp t) \<le> 14"
  by (simp add: strftime_stamp_def year_str_def pad2_def)

lemma other_namespace_not_prefix:
  assumes k: "CHR ''_'' \<notin> set key" and k': "CHR ''_'' \<notin> set key'"
    and len: "length r + length key' < 2 * length key + 1" "length r < length key' + 1"
    and ab: "a \<noteq> b" and npre: "\<not> startswith a (b @ ''_'' @ key)"
  shows "\<not> startswith (a @ ''_'' @ key' @ r) (b @ ''_'' @ key)"
proof
  assume "startswith (a @ ''_'' @ key' @ r) (b @ ''_'' @ key)"
  then obtain z where z: "a @ CHR ''_'' # key' @ r = b @ CHR ''_'' # key @ z"
    by (auto simp: startswith_iff)
  then consider us where "a = b @ us" "us @ CHR ''_'' # key' @ r = CHR ''_'' # key @ z"
    | us where "a @ us = b" "CHR ''_'' # key' @ r = us @ CHR ''_'' # key @ z"
    by (auto simp: append_eq_append_conv2)
  then show False
  proof cases
    case 1
    with ab obtain us' where us: "us = CHR ''_'' # us'" "us' @ CHR ''_'' # key' @ r = key @ z"
      by (cases us) auto
    from us(2) consider ws where "us' = key @ ws"
      | ws where "us' @ ws = key" "CHR ''_'' # key' @ r = ws @ z"
      by (auto simp: append_eq_append_conv2)
    then show False
    proof cases
      case 1
      then have "a = (b @ ''_'' @ key) @ ws" using \<open>a = b @ us\<close> us(1) by simp
      then show False using npre startswith_iff by blast
    next
      case 2
      show False
      proof (cases ws)
        case Nil
        then have "a = (b @ ''_'' @ key) @ []" using 2 \<open>a = b @ us\<close> us(1) by simp
        then show False using npre startswith_iff by blast
      next
        case (Cons c ws')
        then have "c = CHR ''_''" using 2(2) by simp
        then show False using k 2(1) Cons by auto
      qed
    qed
  next
    case 2
    with ab obtain us' where us: "us = CHR ''_'' # us'" "key' @ r = us' @ CHR ''_'' # key @ z"
      by (cases us) auto
    from us(2) have "length key' + length r = length us' + 1 + length key + length z"
      by (metis length_append length_Cons Suc_eq_plus1 add.assoc add.commute)
    then have short: "length us' < length key'" using len by linarith
    from us(2) consider ws where "key' = us' @ ws" "ws @ r = CHR ''_'' # key @ z"
      | ws where "key' @ ws = us'"
      by (auto simp: append_eq_append_conv2)
    then show False
    proof cases
      case 1
      then have "ws \<noteq> []" using short by auto
      then obtain c ws' where "ws = c # ws'" by (cases ws) auto
      then have "CHR ''_'' \<in> set key'" using 1 by auto
      then show False using k' by simp
    next
      case 2
      then have "length key' \<le> length us'" by (metis length_append le_add1)
      then show False using short by simp
    qed
  qed
qed

lemma other_namespace_unselected:
  assumes hex: "is_hexdigest key" "is_hexdigest key'"
    and names: "a \<noteq> []" "b \<noteq> []" "a \<noteq> b"
    and npre: "\<not> startswith a (b @ ''_'' @ key)"
  shows "\<not> selected (Some b) (file_prefix_of (Some b) key)
            (entry_name (file_prefix_of (Some a) key') t')"
proof -
  let ?r = "''_'' @ strftime_stamp t' @ ''.pkl''"
  have l: "length key = 64" "length key' = 64" using hex by (simp_all add: is_hexdigest_def)
  have r: "length ?r \<le> 19" using length_strftime_stamp_le [of t'] by simp
  have "\<not> startswith (a @ ''_'' @ key' @ ?r) (b @ ''_'' @ key)"
  proof (rule other_namespace_not_prefix)
    show "CHR ''_'' \<notin> set key" "CHR ''_'' \<notin> set key'"
      using hex by (simp_all add: hexdigest_no_underscore)
    show "length ?r + length key' < 2 * length key + 1" using l r by linarith
    show "length ?r < length key' + 1" using l r by linarith
    show "a \<noteq> b" by (rule names(3))
    show "\<not> startswith a (b @ ''_'' @ key)" by (rule npre)
  qed
  moreover have "entry_name (file_prefix_of (Some a) key') t' = a @ ''_'' @ key' @ ?r"
    using names(1) by (simp add: entry_name_def file_prefix_of_def name_given_def)
  moreover have "file_prefix_of (Some b) key = b @ ''_'' @ key"
    using names(2) by (simp add: file_prefix_of_def name_given_def)
  ultimately show ?thesis by (simp add: selected_def)
qed

section \<open>Namespaces\<close>

text \<open>
  C8, as the code has it. Let \<open>a\<close> and \<open>b\<close> be two different non-empty names, and let \<open>a\<close>
  not start with \<open>b\<close>, an underscore and the digest of the key that is looked up. A file that
  \<^verbatim>\<open>store\<close> writes under the name \<open>a\<close>, for any key and at any time, is not selected by a
  \<^verbatim>\<open>check\<close> under the name \<open>b\<close>: the file is still there afterwards with its content, and
  \<^verbatim>\<open>check\<close> returns what it returns on the listing without that file, so it does not read
  it. When no other file of the listing is selected either, \<^verbatim>\<open>check\<close> returns
  \<open>(False, None)\<close> and leaves the directory as it is. The digests have 64 hexadecimal digits.
\<close>

theorem namespace_isolation:
  assumes key: "derive_key env (ensure_tuple args) (ensure_dict kwargs) = Some key"
    and hex: "is_hexdigest key" "is_hexdigest key'"
    and names: "a \<noteq> []" "b \<noteq> []" "a \<noteq> b"
    and npre: "\<not> startswith a (b @ ''_'' @ key)"
  shows "\<not> selected (Some b) (file_prefix_of (Some b) key)
            (entry_name (file_prefix_of (Some a) key') t')
       \<and> fst (check env args kwargs (Some b) time_limit now listing dir)
            (entry_name (file_prefix_of (Some a) key') t')
           = dir (entry_name (file_prefix_of (Some a) key') t')
       \<and> check env args kwargs (Some b) time_limit now listing dir
           = check env args kwargs (Some b) time_limit now
               (removeAll (entry_name (file_prefix_of (Some a) key') t') listing) dir
       \<and> (list_all (\<lambda>g. \<not> selected (Some b) (file_prefix_of (Some b) key) g)
             (removeAll (entry_name (file_prefix_of (Some a) key') t') listing)
            \<longrightarrow> check env args kwargs (Some b) time_limit now listing dir
                  = (dir, Inr (False, PNone)))"
proof -
  let ?e = "entry_name (file_prefix_of (Some a) key') t'"
  let ?p = "file_prefix_of (Some b) key"
  have u: "\<not> selected (Some b) ?p ?e"
    by (rule other_namespace_unselected [OF hex names npre])
  have f: "fst (check_scan env (Some b) ?p now time_limit listing dir) ?e = dir ?e"
    by (rule check_scan_frame [OF u])
  have r: "check_scan env (Some b) ?p now time_limit (removeAll ?e listing) dir
           = check_scan env (Some b) ?p now time_limit listing dir"
    by (rule check_scan_removeAll [OF u])
  have n: "list_all (\<lambda>g. \<not> selected (Some b) ?p g) (removeAll ?e listing)
           \<longrightarrow> check_scan env (Some b) ?p now time_limit listing dir = (dir, Inr (False, PNone))"
    using check_scan_none_selected [of "Some b" ?p "removeAll ?e listing" env now time_limit dir] r
    by simp
  show ?thesis
    using u f r n by (simp only: check_key [OF key] simp_thms)
qed

theorem namespace_isolation_witness:
  "derive_key demo_codec (ensure_tuple demo_args) (ensure_dict PNone) = Some demo_key
   \<and> is_hexdigest demo_key
   \<and> ''my_function'' \<noteq> [] \<and> ''m'' \<noteq> [] \<and> ''my_function'' \<noteq> ''m''
   \<and> \<not> startswith ''my_function'' (''m'' @ ''_'' @ demo_key)
   \<and> fst (store demo_codec (PInt 3) demo_args PNone (Some ''my_function'') (clock 2 0) Map.empty)
       = [entry_name (file_prefix_of (Some ''my_function'') demo_key) (clock 2 0) \<mapsto> ''i111;'']
   \<and> check demo_codec demo_args PNone (Some ''m'') 60000000 (clock 8 0)
        [entry_name (file_prefix_of (Some ''my_function'') demo_key) (clock 2 0)]
        [entry_name (file_prefix_of (Some ''my_function'') demo_key) (clock 2 0) \<mapsto> ''i111;'']
      = ([entry_name (file_prefix_of (Some ''my_function'') demo_key) (clock 2 0) \<mapsto> ''i111;''],
         Inr (False, PNone))"
proof -
  let ?e = "entry_name (file_prefix_of (Some ''my_function'') demo_key) (clock 2 0)"
  have n: "''my_function'' \<noteq> []" "''m'' \<noteq> []" "''my_function'' \<noteq> ''m''" by simp_all
  have p: "\<not> startswith ''my_function'' (''m'' @ ''_'' @ demo_key)"
    by (simp add: startswith_def)
  have s: "fst (store demo_codec (PInt 3) demo_args PNone (Some ''my_function'') (clock 2 0) Map.empty)
       = [?e \<mapsto> ''i111;'']"
  proof -
    have "pickle_dumps demo_codec (PInt 3) = Some ''i111;''"
      by (simp add: pickle_dumps_def demo_codec_def replicate_numeral)
    then show ?thesis by (simp add: store_key [OF demo_key_args])
  qed
  have la: "list_all (\<lambda>g. \<not> selected (Some ''m'') (file_prefix_of (Some ''m'') demo_key) g)
              (removeAll ?e [?e])"
    by simp
  note iso = namespace_isolation [OF demo_key_args is_hexdigest_demo_key is_hexdigest_demo_key n p,
        where t' = "clock 2 0" and listing = "[?e]" and dir = "[?e \<mapsto> ''i111;'']"
          and time_limit = 60000000 and now = "clock 8 0"]
  have c: "check demo_codec demo_args PNone (Some ''m'') 60000000 (clock 8 0) [?e]
             [?e \<mapsto> ''i111;''] = ([?e \<mapsto> ''i111;''], Inr (False, PNone))"
    by (rule iso [THEN conjunct2, THEN conjunct2, THEN conjunct2, THEN mp, OF la])
  show ?thesis
    using demo_key_args is_hexdigest_demo_key n p s c by (simp only: simp_thms)
qed

text \<open>
  The name \<^verbatim>\<open>m\<close>, and the name made of \<^verbatim>\<open>m\<close>, an underscore and the digest of the key.
  A \<^verbatim>\<open>store\<close> of 1 under the second name is followed by a \<^verbatim>\<open>check\<close> under the name
  \<^verbatim>\<open>m\<close>: the file name starts with the prefix that \<^verbatim>\<open>check\<close> looks for, and \<^verbatim>\<open>check\<close>
  reads the file and returns \<open>(True, 1)\<close>.
\<close>

theorem namespace_isolation_counterexample:
  "''m_'' @ demo_key \<noteq> ''m''
   \<and> check demo_codec demo_args PNone (Some ''m'') 60000000 (clock 8 0)
        [entry_name (file_prefix_of (Some (''m_'' @ demo_key)) demo_key) (clock 2 0)]
        (fst (store demo_codec (PInt 1) demo_args PNone (Some (''m_'' @ demo_key)) (clock 2 0)
               Map.empty))
      = ([entry_name (file_prefix_of (Some (''m_'' @ demo_key)) demo_key) (clock 2 0) \<mapsto> ''i1;''],
         Inr (True, PInt 1))"
proof -
  let ?e = "entry_name (file_prefix_of (Some (''m_'' @ demo_key)) demo_key) (clock 2 0)"
  have s: "fst (store demo_codec (PInt 1) demo_args PNone (Some (''m_'' @ demo_key)) (clock 2 0)
               Map.empty) = [?e \<mapsto> ''i1;'']"
    by (simp add: store_key [OF demo_key_args] demo_dumps_ints)
  have sel: "selected (Some ''m'') (file_prefix_of (Some ''m'') demo_key) ?e"
    by (simp add: selected_def file_prefix_of_def name_given_def entry_name_def startswith_def)
  have v: "check_live (clock 8 0) 60000000 ?e"
    using check_live_entry_name [OF valid_clock [of 2 0] year_clock,
        of "clock 8 0" 60000000 "file_prefix_of (Some (''m_'' @ demo_key)) demo_key"]
      dt_diff_clock [of 8 0 2 0]
    by simp
  have c: "[?e \<mapsto> ''i1;''] ?e = Some ''i1;''" by simp
  have "check_scan demo_codec (Some ''m'') (file_prefix_of (Some ''m'') demo_key) (clock 8 0)
          60000000 (?e # []) [?e \<mapsto> ''i1;''] = ([?e \<mapsto> ''i1;''], Inr (True, PInt 1))"
    using check_scan_live [where dir = "[?e \<mapsto> ''i1;'']" and f = ?e and b = "''i1;''"
        and env = demo_codec and rest = "[]", OF sel v c]
    by (simp add: demo_loads_ints)
  moreover have "''m_'' @ demo_key \<noteq> ''m''" by simp
  ultimately show ?thesis
    unfolding check_key [OF demo_key_args] s by (simp only: simp_thms)
qed

section \<open>The characters of a timestamp\<close>

lemma match_alt_within:
  assumes "\<forall>cl\<in>set a. set cl \<subseteq> A" and "match_alt a s = Some (m, r)"
  shows "s = m @ r \<and> set m \<subseteq> A"
  using assms
proof (induction a s arbitrary: m r rule: match_alt.induct)
  case (1 s)
  then show ?case by simp
next
  case (2 cl cls)
  then show ?case by simp
next
  case (3 cl cls c s)
  from "3.prems"(2) have c: "c \<in> set cl" by (simp split: if_splits)
  with "3.prems"(2) obtain m' where m': "match_alt cls s = Some (m', r)" "m = c # m'"
    by (auto split: option.splits)
  have "\<forall>cl\<in>set cls. set cl \<subseteq> A" using "3.prems"(1) by simp
  from "3.IH" [OF c this m'(1)] have "s = m' @ r" "set m' \<subseteq> A" by simp_all
  moreover have "c \<in> A" using c "3.prems"(1) by auto
  ultimately show ?case using m'(2) by simp
qed

lemma match_group_within:
  assumes "\<forall>a\<in>set g. \<forall>cl\<in>set a. set cl \<subseteq> A" and "(m, r) \<in> set (match_group g s)"
  shows "s = m @ r \<and> set m \<subseteq> A"
proof -
  from assms(2) obtain a where "a \<in> set g" "match_alt a s = Some (m, r)"
    by (auto simp: match_group_def List.map_filter_def)
  then show ?thesis using match_alt_within [of a A s m r] assms(1) by blast
qed

lemma match_seq_within:
  assumes "\<forall>g\<in>set gs. \<forall>a\<in>set g. \<forall>cl\<in>set a. set cl \<subseteq> A"
    and "(ms, r) \<in> set (match_seq gs s)"
  shows "s = concat ms @ r \<and> set (concat ms) \<subseteq> A"
  using assms
proof (induction gs arbitrary: s ms)
  case Nil
  then show ?case by simp
next
  case (Cons g gs)
  from Cons.prems(2) obtain m r' ms' where
    m: "(m, r') \<in> set (match_group g s)" "(ms', r) \<in> set (match_seq gs r')" "ms = m # ms'"
    by auto
  have g: "\<forall>a\<in>set g. \<forall>cl\<in>set a. set cl \<subseteq> A" using Cons.prems(1) by simp
  have gs: "\<forall>g\<in>set gs. \<forall>a\<in>set g. \<forall>cl\<in>set a. set cl \<subseteq> A" using Cons.prems(1) by simp
  from match_group_within [OF g m(1)] have 1: "s = m @ r'" "set m \<subseteq> A" by simp_all
  from Cons.IH [OF gs m(2)] have 2: "r' = concat ms' @ r" "set (concat ms') \<subseteq> A" by simp_all
  show ?case using 1 2 m(3) by simp
qed

lemma strptime_within:
  assumes "\<forall>g\<in>set gs. \<forall>a\<in>set g. \<forall>cl\<in>set a. set cl \<subseteq> A"
    and "strptime gs s = Some t"
  shows "set s \<subseteq> A"
proof -
  from assms(2) obtain ms where "re_match gs s = Some (ms, [])"
    by (auto simp: strptime_def split: option.splits if_splits)
  then have "(ms, []) \<in> set (match_seq gs s)"
    by (auto simp: re_match_def split: list.splits)
  from match_seq_within [OF assms(1) this] show ?thesis by simp
qed

lemma fmt_stamp_pkl_chars:
  "\<forall>g\<in>set fmt_stamp_pkl. \<forall>a\<in>set g. \<forall>cl\<in>set a. set cl \<subseteq> set ''0123456789 .pPkKlL''"
  by (simp add: fmt_stamp_pkl_def fmt_stamp_def re_Y_def re_m_def re_d_def re_H_def re_M_def
      re_S_def digits_def)

lemma strptime_pkl_chars:
  "strptime fmt_stamp_pkl s = Some t \<Longrightarrow> set s \<subseteq> set ''0123456789 .pPkKlL''"
  by (rule strptime_within [OF fmt_stamp_pkl_chars])

lemma strptime_pkl_underscore: "CHR ''_'' \<in> set s \<Longrightarrow> strptime fmt_stamp_pkl s = None"
proof (rule ccontr)
  assume u: "CHR ''_'' \<in> set s" and "strptime fmt_stamp_pkl s \<noteq> None"
  then obtain t where "strptime fmt_stamp_pkl s = Some t" by auto
  from strptime_pkl_chars [OF this] u show False by auto
qed

lemma strptime_pkl_letter_e: "CHR ''e'' \<in> set s \<Longrightarrow> strptime fmt_stamp_pkl s = None"
proof (rule ccontr)
  assume u: "CHR ''e'' \<in> set s" and "strptime fmt_stamp_pkl s \<noteq> None"
  then obtain t where "strptime fmt_stamp_pkl s = Some t" by auto
  from strptime_pkl_chars [OF this] u show False by auto
qed

section \<open>The timestamp that the decorator reads from a name\<close>

lemma cache_stamp_second_underscore:
  assumes "CHR ''_'' \<in> set z"
  shows "cache_stamp (n @ ''_'' @ z) = None"
proof -
  let ?P = "\<lambda>x. x \<noteq> CHR ''_''"
  have d: "dropWhile ?P (n @ CHR ''_'' # z) = dropWhile ?P n @ CHR ''_'' # z"
    by (rule dropWhile_append3) simp
  have "CHR ''_'' \<in> set (tl (dropWhile ?P n @ CHR ''_'' # z))"
  proof (cases "dropWhile ?P n")
    case Nil
    show ?thesis unfolding Nil using assms by simp
  next
    case (Cons c cs)
    show ?thesis unfolding Cons by simp
  qed
  then have "CHR ''_'' \<in> set (tl (dropWhile ?P (n @ CHR ''_'' # z)))"
    by (simp only: d)
  then have "strptime fmt_stamp_pkl (tl (dropWhile ?P (n @ CHR ''_'' # z))) = None"
    by (rule strptime_pkl_underscore)
  then show ?thesis by (simp add: cache_stamp_def split_once_def)
qed

lemma cache_stamp_key_error:
  assumes "startswith f (file_prefix_of name ''key_error'')"
  shows "cache_stamp f = None"
proof (cases "name_given name")
  case True
  with assms obtain z where "f = (the name @ ''_'' @ ''key_error'') @ z"
    by (auto simp: startswith_iff file_prefix_of_def)
  then have "f = the name @ ''_'' @ (''key_error'' @ z)" by simp
  moreover have "CHR ''_'' \<in> set (''key_error'' @ z)" by simp
  ultimately show ?thesis using cache_stamp_second_underscore by metis
next
  case False
  with assms obtain z where f: "f = ''key_error'' @ z"
    by (auto simp: startswith_iff file_prefix_of_def)
  have "strptime fmt_stamp_pkl (''error'' @ z) = None"
    by (rule strptime_pkl_letter_e) simp
  then show ?thesis by (simp add: f cache_stamp_def split_once_def)
qed

section \<open>The loop of the decorator\<close>

lemma cache_scan_skip:
  "\<not> selected name prefix f \<Longrightarrow>
   cache_scan env name prefix now lim (f # rest) dir = cache_scan env name prefix now lim rest dir"
  by (auto simp: selected_def)

lemma cache_scan_invalid:
  assumes "selected name prefix f" "cache_stamp f = None" "dir f = Some b"
  shows "cache_scan env name prefix now lim (f # rest) dir =
         cache_scan env name prefix now lim rest (dir(f := None))"
  using assms by (auto simp: selected_def)

lemma cache_scan_all_invalid:
  assumes "distinct fs" "set fs \<subseteq> dom dir"
    and "\<forall>f\<in>set fs. selected name prefix f \<longrightarrow> cache_stamp f = None"
  shows "cache_scan env name prefix now lim fs dir = (purge name prefix fs dir, Inr None)"
  using assms
proof (induction fs arbitrary: dir)
  case Nil
  then show ?case by simp
next
  case (Cons f fs)
  show ?case
  proof (cases "selected name prefix f")
    case False
    with Cons show ?thesis
      by (simp add: cache_scan_skip purge_Cons_unselected del: cache_scan.simps)
  next
    case True
    from Cons.prems obtain b where b: "dir f = Some b" by auto
    have inv: "cache_stamp f = None" using Cons.prems True by simp
    have sub: "set fs \<subseteq> dom (dir(f := None))" using Cons.prems by auto
    have "cache_scan env name prefix now lim (f # fs) dir =
          cache_scan env name prefix now lim fs (dir(f := None))"
      using cache_scan_invalid [of name prefix f dir b env now lim fs] True inv b by simp
    also have "\<dots> = (purge name prefix fs (dir(f := None)), Inr None)"
    proof (rule Cons.IH)
      show "distinct fs" using Cons.prems by simp
      show "set fs \<subseteq> dom (dir(f := None))" by (rule sub)
      show "\<forall>g\<in>set fs. selected name prefix g \<longrightarrow> cache_stamp g = None"
        using Cons.prems by simp
    qed
    finally show ?thesis by (simp add: purge_Cons_selected [OF True])
  qed
qed

lemma cache_this_after_miss:
  assumes "cache_scan env name (file_prefix_of name (wrapper_key env args kwargs)) now lim listing dir
             = (dir', Inr None)"
  shows "cache_this env name lim func args kwargs now listing dir =
         (case func args kwargs of
            Inl e \<Rightarrow> (dir', 1, Inl e)
          | Inr result \<Rightarrow>
              (case pickle_dumps env result of
                 None \<Rightarrow>
                   (dir'(entry_name (file_prefix_of name (wrapper_key env args kwargs)) now
                           \<mapsto> pickle_partial env result), 1, Inl PicklingError)
               | Some b \<Rightarrow>
                   (dir'(entry_name (file_prefix_of name (wrapper_key env args kwargs)) now
                           \<mapsto> b), 1, Inr result)))"
  using assms
  by (simp add: cache_this_def Let_def write_pickle_def split: sum.splits option.splits)

section \<open>A key that cannot be derived\<close>

text \<open>
  C6. When pickling the arguments raises, \<^verbatim>\<open>check\<close> returns \<open>(False, None)\<close> at once and
  leaves the directory as it is. The decorator goes on with the key \<^verbatim>\<open>key_error\<close>: no file
  name that starts with that prefix carries a timestamp that the decorator can read, so the
  loop removes those files and returns nothing, and the wrapped function is called, once.
  The call returns what the function returns, or raises what it raises or what pickling
  its result raises; the failure to derive the key is not raised. The listing is a listing
  of the directory.
\<close>

theorem key_failure_is_a_miss:
  assumes ck: "derive_key env (ensure_tuple cargs) (ensure_dict ckwargs) = None"
    and wk: "derive_key env (PTuple args) (kwargs_dict kwargs) = None"
    and listing: "is_listing listing dir"
  shows "check env cargs ckwargs name time_limit now listing dir = (dir, Inr (False, PNone))
       \<and> cache_this env name time_limit func args kwargs now listing dir =
           (case func args kwargs of
              Inl e \<Rightarrow> (purge name (file_prefix_of name ''key_error'') listing dir, 1, Inl e)
            | Inr result \<Rightarrow>
                (case pickle_dumps env result of
                   None \<Rightarrow>
                     ((purge name (file_prefix_of name ''key_error'') listing dir)
                        (entry_name (file_prefix_of name ''key_error'') now
                           \<mapsto> pickle_partial env result), 1, Inl PicklingError)
                 | Some b \<Rightarrow>
                     ((purge name (file_prefix_of name ''key_error'') listing dir)
                        (entry_name (file_prefix_of name ''key_error'') now \<mapsto> b),
                      1, Inr result)))"
proof -
  let ?p = "file_prefix_of name ''key_error''"
  have w: "wrapper_key env args kwargs = ''key_error''" by (simp add: wrapper_key_def wk)
  have d: "distinct listing" and s: "set listing \<subseteq> dom dir"
    using listing by (simp_all add: is_listing_def)
  have inv: "\<forall>f\<in>set listing. selected name ?p f \<longrightarrow> cache_stamp f = None"
    using cache_stamp_key_error by (auto simp: selected_def)
  have "cache_scan env name (file_prefix_of name (wrapper_key env args kwargs)) now time_limit
          listing dir = (purge name ?p listing dir, Inr None)"
    unfolding w by (rule cache_scan_all_invalid [OF d s inv])
  from cache_this_after_miss [OF this, of func]
  have "cache_this env name time_limit func args kwargs now listing dir =
           (case func args kwargs of
              Inl e \<Rightarrow> (purge name ?p listing dir, 1, Inl e)
            | Inr result \<Rightarrow>
                (case pickle_dumps env result of
                   None \<Rightarrow>
                     ((purge name ?p listing dir)
                        (entry_name ?p now \<mapsto> pickle_partial env result), 1, Inl PicklingError)
                 | Some b \<Rightarrow>
                     ((purge name ?p listing dir) (entry_name ?p now \<mapsto> b), 1, Inr result)))"
    by (simp only: w)
  moreover have "check env cargs ckwargs name time_limit now listing dir = (dir, Inr (False, PNone))"
    by (simp add: check_def ck)
  ultimately show ?thesis by (simp only: simp_thms)
qed

theorem key_failure_is_a_miss_witness:
  "derive_key demo_codec (ensure_tuple (PObj 0)) (ensure_dict PNone) = None
   \<and> derive_key demo_codec (PTuple [PObj 0]) (kwargs_dict []) = None
   \<and> is_listing [''m_key_error_20240301120002.pkl'']
        [''m_key_error_20240301120002.pkl'' \<mapsto> ''i1;'']
   \<and> check demo_codec (PObj 0) PNone (Some ''m'') 60000000 (clock 8 0)
        [''m_key_error_20240301120002.pkl''] [''m_key_error_20240301120002.pkl'' \<mapsto> ''i1;'']
      = ([''m_key_error_20240301120002.pkl'' \<mapsto> ''i1;''], Inr (False, PNone))
   \<and> cache_this demo_codec (Some ''m'') 60000000 (\<lambda>a k. Inr (PInt 2)) [PObj 0] [] (clock 8 0)
        [''m_key_error_20240301120002.pkl''] [''m_key_error_20240301120002.pkl'' \<mapsto> ''i1;'']
      = ([''m_key_error_20240301120008.pkl'' \<mapsto> ''i11;''], 1, Inr (PInt 2))"
proof -
  let ?f = "''m_key_error_20240301120002.pkl''"
  let ?dir = "[?f \<mapsto> ''i1;'']"
  have ck: "derive_key demo_codec (ensure_tuple (PObj 0)) (ensure_dict PNone) = None"
    by (simp add: derive_key_def pickle_dumps_def demo_codec_def ensure_tuple_def ensure_dict_def)
  have wk: "derive_key demo_codec (PTuple [PObj 0]) (kwargs_dict []) = None"
    by (simp add: derive_key_def pickle_dumps_def demo_codec_def kwargs_dict_def)
  have l: "is_listing [?f] ?dir" by (simp add: is_listing_def)
  have p: "purge (Some ''m'') (file_prefix_of (Some ''m'') ''key_error'') [?f] ?dir = Map.empty"
    by (rule ext) (simp add: purge_def selected_def file_prefix_of_def name_given_def startswith_def)
  have e: "entry_name (file_prefix_of (Some ''m'') ''key_error'') (clock 8 0)
            = ''m_key_error_20240301120008.pkl''"
    using strftime_noon [of 8 0]
    by (simp add: entry_name_def file_prefix_of_def name_given_def clock_def pad2_def
        digit_char_def digits_def)
  note th = key_failure_is_a_miss [OF ck wk l, where name = "Some ''m''" and now = "clock 8 0"
      and time_limit = 60000000 and func = "\<lambda>a k. Inr (PInt 2)"]
  have c: "cache_this demo_codec (Some ''m'') 60000000 (\<lambda>a k. Inr (PInt 2)) [PObj 0] [] (clock 8 0)
        [?f] ?dir = ([''m_key_error_20240301120008.pkl'' \<mapsto> ''i11;''], 1, Inr (PInt 2))"
    using th [THEN conjunct2] by (simp add: p e demo_dumps_ints)
  show ?thesis
    using ck wk l th [THEN conjunct1] c by (simp only: simp_thms)
qed

section \<open>Calling a decorated function twice\<close>

lemma wrapper_key_demo: "wrapper_key demo_codec [PInt 1, PInt 2] [] = demo_key"
  using demo_key_args
  by (simp add: wrapper_key_def kwargs_dict_def ensure_tuple_def ensure_dict_def demo_args_def)

lemma cache_stamp_demo_entry: "cache_stamp (demo_entry s) = None"
proof -
  have "demo_entry s = ''m'' @ ''_'' @ (demo_key @ ''_202403011200'' @ pad2 s @ ''.pkl'')"
    by (simp add: demo_entry_def)
  moreover have "CHR ''_'' \<in> set (demo_key @ ''_202403011200'' @ pad2 s @ ''.pkl'')" by simp
  ultimately show ?thesis using cache_stamp_second_underscore by metis
qed

text \<open>
  C2. The function \<^verbatim>\<open>my_function\<close> of the module's own example is decorated with
  \<^verbatim>\<open>cache_this(name="m")\<close> and called with \<^verbatim>\<open>(1, 2)\<close> at 12:00:02 and again at
  12:00:05, with a limit of one minute. The claim is that the second call does not call
  the function. The first call finds an empty directory, calls the function and writes an
  entry. The second call finds that entry; \<^verbatim>\<open>filename.split('_', 1)\<close> cuts the name after
  the \<^verbatim>\<open>m\<close>, what follows is not a timestamp, and the entry is removed as invalid: the
  function is called a second time.
\<close>

theorem cache_this_named_recomputes:
  "cache_this demo_codec (Some ''m'') 60000000 my_function [PInt 1, PInt 2] [] (clock 2 0)
     [] Map.empty
   = ([demo_entry 2 \<mapsto> ''i111;''], 1, Inr (PInt 3))
   \<and> cache_this demo_codec (Some ''m'') 60000000 my_function [PInt 1, PInt 2] [] (clock 5 0)
       [demo_entry 2] [demo_entry 2 \<mapsto> ''i111;'']
   = ([demo_entry 5 \<mapsto> ''i111;''], 1, Inr (PInt 3))"
proof -
  let ?p = "file_prefix_of (Some ''m'') demo_key"
  have d3: "pickle_dumps demo_codec (PInt 3) = Some ''i111;''"
    by (simp add: pickle_dumps_def demo_codec_def replicate_numeral)
  have s1: "cache_scan demo_codec (Some ''m'')
              (file_prefix_of (Some ''m'') (wrapper_key demo_codec [PInt 1, PInt 2] []))
              (clock 2 0) 60000000 [] Map.empty = (Map.empty, Inr None)"
    by simp
  have p: "purge (Some ''m'') ?p [demo_entry 2] [demo_entry 2 \<mapsto> ''i111;''] = Map.empty"
    by (rule ext) (simp add: purge_def selected_demo_entry)
  have "cache_scan demo_codec (Some ''m'') ?p (clock 5 0) 60000000 [demo_entry 2]
          [demo_entry 2 \<mapsto> ''i111;'']
        = (purge (Some ''m'') ?p [demo_entry 2] [demo_entry 2 \<mapsto> ''i111;''], Inr None)"
    by (rule cache_scan_all_invalid) (simp_all add: cache_stamp_demo_entry)
  then have s2: "cache_scan demo_codec (Some ''m'')
              (file_prefix_of (Some ''m'') (wrapper_key demo_codec [PInt 1, PInt 2] []))
              (clock 5 0) 60000000 [demo_entry 2] [demo_entry 2 \<mapsto> ''i111;'']
            = (Map.empty, Inr None)"
    by (simp only: p wrapper_key_demo)
  have c1: "cache_this demo_codec (Some ''m'') 60000000 my_function [PInt 1, PInt 2] []
              (clock 2 0) [] Map.empty = ([demo_entry 2 \<mapsto> ''i111;''], 1, Inr (PInt 3))"
    using cache_this_after_miss [OF s1, of my_function]
    by (simp add: d3 wrapper_key_demo entry_name_clock my_function_def py_add_def int_value_def)
  have c2: "cache_this demo_codec (Some ''m'') 60000000 my_function [PInt 1, PInt 2] []
              (clock 5 0) [demo_entry 2] [demo_entry 2 \<mapsto> ''i111;'']
            = ([demo_entry 5 \<mapsto> ''i111;''], 1, Inr (PInt 3))"
    using cache_this_after_miss [OF s2, of my_function]
    by (simp add: d3 wrapper_key_demo entry_name_clock my_function_def py_add_def int_value_def)
  show ?thesis using c1 c2 by (simp only: simp_thms)
qed

section \<open>The memo of the pickler\<close>














section \<open>Normalising the arguments\<close>




end
